theory Spec2Isabelle
  imports Complex_Main
begin

section \<open>Data model (src/src/types/index.ts)\<close>

text \<open>
  The classes \<open>DatabaseService\<close>, \<open>AutomacaoService\<close> and \<open>StatusService\<close> and the routes
  of the server are all found in src/src/services/database.service.ts; \<open>processarRegistro\<close>
  is in src/src/playwright/fluxo.ts. String literals of the source that carry Portuguese
  diacritics are written here without them (\<open>Automacao ja esta em execucao\<close>), since a
  HOL string literal is ASCII.
\<close>

datatype record_status = Pendente | Processando | Cancelado | Erro

record PolicyRecord =
  apolice :: string
  parcela :: string
  proposta :: string
  valor :: string
  vigencia :: string
  cnpjCpf :: string
  nome :: string
  status :: record_status
  observacao :: string

record ProcessStatus =
  isProcessing :: bool
  isPaused :: bool
  currentIndex :: nat
  total :: nat
  cancelados :: nat
  erros :: nat
  progress :: int

datatype log_type = LogSuccess | LogError | LogInfo

record LogEntry =
  entry_id :: string
  entry_type :: log_type
  log_message :: string
  timestamp :: string

record AutomationConfig =
  username :: string
  password :: string
  headless :: bool
  maxRetries :: int

text \<open>\<open>AutomationResult\<close> of src/src/playwright/fluxo.ts.\<close>

record AutomationResult =
  success :: bool
  message :: string

section \<open>Numbers inside template strings\<close>

fun string_of_nat :: "nat \<Rightarrow> string" where
  "string_of_nat n =
     (if n < 10 then [''0123456789'' ! n]
      else string_of_nat (n div 10) @ [''0123456789'' ! (n mod 10)])"

declare string_of_nat.simps [simp del]

definition string_of_int :: "int \<Rightarrow> string" where
  "string_of_int k = (if k < 0 then ''-'' @ string_of_nat (nat (- k)) else string_of_nat (nat k))"

section \<open>StatusService\<close>

text \<open>
  The service extends \<open>EventEmitter\<close>: every mutator ends with one \<open>emit\<close>. A method is
  modelled as a function returning the updated service together with the event it emits;
  the event carries the value of the status object at the time of the call, which is what a
  listener serialises. The private field \<open>records\<close> is written by \<open>initialize\<close> and never
  read, so it is left out.
\<close>

record StatusService =
  ss_status :: ProcessStatus
  logs :: "LogEntry list"

datatype ss_event = Status_event ProcessStatus | Log_event LogEntry

definition new_StatusService :: StatusService where
  "new_StatusService =
     \<lparr>ss_status = \<lparr>isProcessing = False, isPaused = False, currentIndex = 0, total = 0,
                   cancelados = 0, erros = 0, progress = 0\<rparr>,
      logs = []\<rparr>"

definition initialize :: "PolicyRecord list \<Rightarrow> StatusService \<Rightarrow> StatusService \<times> ss_event" where
  "initialize records ss =
     (let st = \<lparr>isProcessing = False, isPaused = False, currentIndex = 0,
                 total = length records, cancelados = 0, erros = 0, progress = 0\<rparr>
      in (ss\<lparr>ss_status := st, logs := []\<rparr>, Status_event st))"

definition start :: "StatusService \<Rightarrow> StatusService \<times> ss_event" where
  "start ss =
     (let st = (ss_status ss)\<lparr>isProcessing := True, isPaused := False\<rparr>
      in (ss\<lparr>ss_status := st\<rparr>, Status_event st))"

definition pause :: "StatusService \<Rightarrow> StatusService \<times> ss_event" where
  "pause ss =
     (let st = (ss_status ss)\<lparr>isPaused := True\<rparr>
      in (ss\<lparr>ss_status := st\<rparr>, Status_event st))"

definition resume :: "StatusService \<Rightarrow> StatusService \<times> ss_event" where
  "resume ss =
     (let st = (ss_status ss)\<lparr>isPaused := False\<rparr>
      in (ss\<lparr>ss_status := st\<rparr>, Status_event st))"

definition stop :: "StatusService \<Rightarrow> StatusService \<times> ss_event" where
  "stop ss =
     (let st = (ss_status ss)\<lparr>isProcessing := False, isPaused := False\<rparr>
      in (ss\<lparr>ss_status := st\<rparr>, Status_event st))"

text \<open>
  \<open>Math.round\<close> rounds to the nearest integer, a tie going up. The quotient is computed
  here in exact rational arithmetic; the source computes it in IEEE doubles, which agree
  wherever \<open>(index + 1) / total\<close> is representable (for instance \<open>total\<close> a power of two).
\<close>

definition Math_round :: "rat \<Rightarrow> int" where
  "Math_round x = \<lfloor>x + 1 / 2\<rfloor>"

definition updateProgress :: "nat \<Rightarrow> nat \<Rightarrow> nat \<Rightarrow> StatusService \<Rightarrow> StatusService \<times> ss_event" where
  "updateProgress index n_cancelados n_erros ss =
     (let st0 = ss_status ss;
          st = st0\<lparr>currentIndex := index, cancelados := n_cancelados, erros := n_erros,
                   progress := (if total st0 > 0
                                then Math_round (((of_nat index + 1) / of_nat (total st0)) * 100)
                                else 0)\<rparr>
      in (ss\<lparr>ss_status := st\<rparr>, Status_event st))"

text \<open>
  \<open>addLog\<close>: the entry's id (\<open>Date.now()\<close> and \<open>Math.random()\<close>) and its timestamp come
  from the environment and are passed in as \<open>stamp\<close>. The new entry goes to the front
  (\<open>unshift\<close>); the buffer is cut to its first 100 entries when it grows beyond that.
\<close>

definition addLog :: "string \<times> string \<Rightarrow> log_type \<Rightarrow> string \<Rightarrow> StatusService \<Rightarrow> StatusService \<times> ss_event" where
  "addLog stamp ty msg ss =
     (let log = \<lparr>entry_id = fst stamp, entry_type = ty, log_message = msg, timestamp = snd stamp\<rparr>;
          logs1 = log # logs ss;
          logs2 = (if length logs1 > 100 then take 100 logs1 else logs1)
      in (ss\<lparr>logs := logs2\<rparr>, Log_event log))"

definition getStatus :: "StatusService \<Rightarrow> ProcessStatus" where
  "getStatus ss = ss_status ss"

definition getLogs :: "StatusService \<Rightarrow> LogEntry list" where
  "getLogs ss = logs ss"

definition statusService_isPaused :: "StatusService \<Rightarrow> bool" where
  "statusService_isPaused ss = isPaused (ss_status ss)"

definition statusService_isProcessing :: "StatusService \<Rightarrow> bool" where
  "statusService_isProcessing ss = (isProcessing (ss_status ss) \<and> \<not> isPaused (ss_status ss))"

text \<open>A sequence of \<open>addLog\<close> calls, each with its stamp, severity and message.\<close>

fun addLogs :: "((string \<times> string) \<times> log_type \<times> string) list \<Rightarrow> StatusService \<Rightarrow> StatusService" where
  "addLogs [] ss = ss"
| "addLogs ((stamp, ty, msg) # rest) ss = addLogs rest (fst (addLog stamp ty msg ss))"

definition entry_of :: "(string \<times> string) \<times> log_type \<times> string \<Rightarrow> LogEntry" where
  "entry_of c = \<lparr>entry_id = fst (fst c), entry_type = fst (snd c), log_message = snd (snd c),
                 timestamp = snd (fst c)\<rparr>"

section \<open>DatabaseService\<close>

datatype session_state = Running | Completed | Paused | Stopped | Failed

record ExecutionSession =
  session_id :: nat
  fileName :: string
  startDate :: string
  endDate :: "string option"
  session_status :: session_state
  totalRecords :: nat
  processedRecords :: nat
  canceledRecords :: nat
  errorRecords :: nat

text \<open>
  A row of \<open>processed_records\<close>. The column \<open>recordData\<close> holds \<open>JSON.stringify(record)\<close>
  and is only ever read back through \<open>JSON.parse\<close>, so it is kept as the record itself.
\<close>

record ProcessedRecord =
  row_id :: nat
  row_sessionId :: nat
  row_apolice :: string
  row_nome :: string
  row_cnpjCpf :: string
  row_status :: record_status
  row_observacao :: string
  processedAt :: string
  recordIndex :: nat
  recordData :: PolicyRecord

text \<open>
  The two tables, rows in insertion order (no statement of the program deletes a row, so
  an \<open>AUTOINCREMENT\<close> id is the number of rows plus one), and the number of statements
  submitted so far. Whether the statement number \<open>n\<close> is rejected by SQLite, and with which
  message, is given by the environment as \<open>fails n\<close>.
\<close>

record database =
  execution_sessions :: "ExecutionSession list"
  processed_records :: "ProcessedRecord list"
  statements :: nat

definition dbRun :: "(nat \<Rightarrow> string option) \<Rightarrow> (database \<Rightarrow> database) \<Rightarrow> database
    \<Rightarrow> string option \<times> database" where
  "dbRun fails effect d =
     (let d1 = d\<lparr>statements := Suc (statements d)\<rparr>
      in case fails (statements d) of
           Some e \<Rightarrow> (Some e, d1)
         | None \<Rightarrow> (None, effect d1))"

text \<open>\<open>dbGet\<close> and \<open>dbAll\<close>: a query changes no row.\<close>

definition dbAll :: "(nat \<Rightarrow> string option) \<Rightarrow> database \<Rightarrow> string option \<times> database" where
  "dbAll fails d = dbRun fails (\<lambda>d. d) d"

definition insert_record :: "string \<Rightarrow> nat \<Rightarrow> nat \<Rightarrow> PolicyRecord \<Rightarrow> database \<Rightarrow> database" where
  "insert_record now sid i r d =
     d\<lparr>processed_records := processed_records d @
        [\<lparr>row_id = Suc (length (processed_records d)), row_sessionId = sid,
          row_apolice = apolice r, row_nome = nome r, row_cnpjCpf = cnpjCpf r,
          row_status = status r, row_observacao = observacao r, processedAt = now,
          recordIndex = i, recordData = r\<rparr>]\<rparr>"

definition update_record :: "string \<Rightarrow> nat \<Rightarrow> nat \<Rightarrow> PolicyRecord \<Rightarrow> database \<Rightarrow> database" where
  "update_record now sid i r d =
     d\<lparr>processed_records :=
        map (\<lambda>row. if row_sessionId row = sid \<and> recordIndex row = i
                    then row\<lparr>row_status := status r, row_observacao := observacao r,
                             processedAt := now, recordData := r\<rparr>
                    else row)
            (processed_records d)\<rparr>"

text \<open>The loop \<open>for (let i = 0; i < records.length; i++) await this.stmtRun(stmt, ...)\<close>.\<close>

fun stmtRun_each :: "(nat \<Rightarrow> string option) \<Rightarrow> (nat \<Rightarrow> PolicyRecord \<Rightarrow> database \<Rightarrow> database)
    \<Rightarrow> nat \<Rightarrow> PolicyRecord list \<Rightarrow> database \<Rightarrow> string option \<times> database" where
  "stmtRun_each fails stmt i [] d = (None, d)"
| "stmtRun_each fails stmt i (r # rs) d =
     (case dbRun fails (stmt i r) d of
        (Some e, d1) \<Rightarrow> (Some e, d1)
      | (None, d1) \<Rightarrow> stmtRun_each fails stmt (Suc i) rs d1)"

definition saveRecords :: "(nat \<Rightarrow> string option) \<Rightarrow> string \<Rightarrow> nat \<Rightarrow> PolicyRecord list \<Rightarrow> database
    \<Rightarrow> string option \<times> database" where
  "saveRecords fails now sid records d =
     (case dbAll fails d of
        (Some e, d1) \<Rightarrow> (Some e, d1)
      | (None, d1) \<Rightarrow>
          (let existing = filter (\<lambda>row. row_sessionId row = sid) (processed_records d1)
           in if length existing = 0
              then stmtRun_each fails (insert_record now sid) 0 records d1
              else stmtRun_each fails (update_record now sid) 0 records d1))"

definition createSession :: "(nat \<Rightarrow> string option) \<Rightarrow> string \<Rightarrow> string \<Rightarrow> PolicyRecord list \<Rightarrow> database
    \<Rightarrow> (string + nat) \<times> database" where
  "createSession fails now file records d =
     (let lastID = Suc (length (execution_sessions d))
      in case dbRun fails
                (\<lambda>d. d\<lparr>execution_sessions := execution_sessions d @
                     [\<lparr>session_id = lastID, fileName = file, startDate = now, endDate = None,
                       session_status = Running, totalRecords = length records,
                       processedRecords = 0, canceledRecords = 0, errorRecords = 0\<rparr>]\<rparr>) d of
           (Some e, d1) \<Rightarrow> (Inl e, d1)
         | (None, d1) \<Rightarrow>
             (case saveRecords fails now lastID records d1 of
                (Some e, d2) \<Rightarrow> (Inl e, d2)
              | (None, d2) \<Rightarrow> (Inr lastID, d2)))"

definition updateSessionProgress :: "(nat \<Rightarrow> string option) \<Rightarrow> nat \<Rightarrow> nat \<Rightarrow> nat \<Rightarrow> nat
    \<Rightarrow> session_state option \<Rightarrow> database \<Rightarrow> string option \<times> database" where
  "updateSessionProgress fails sid processed canceled errors st d =
     (case st of
        Some new_status \<Rightarrow>
          dbRun fails
            (\<lambda>d. d\<lparr>execution_sessions :=
                 map (\<lambda>x. if session_id x = sid
                           then x\<lparr>processedRecords := processed, canceledRecords := canceled,
                                  errorRecords := errors, session_status := new_status\<rparr>
                           else x)
                     (execution_sessions d)\<rparr>) d
      | None \<Rightarrow>
          dbRun fails
            (\<lambda>d. d\<lparr>execution_sessions :=
                 map (\<lambda>x. if session_id x = sid
                           then x\<lparr>processedRecords := processed, canceledRecords := canceled,
                                  errorRecords := errors\<rparr>
                           else x)
                     (execution_sessions d)\<rparr>) d)"

definition finishSession :: "(nat \<Rightarrow> string option) \<Rightarrow> string \<Rightarrow> nat \<Rightarrow> session_state \<Rightarrow> database
    \<Rightarrow> string option \<times> database" where
  "finishSession fails now sid st d =
     dbRun fails
       (\<lambda>d. d\<lparr>execution_sessions :=
            map (\<lambda>x. if session_id x = sid then x\<lparr>endDate := Some now, session_status := st\<rparr> else x)
                (execution_sessions d)\<rparr>) d"

definition getSession :: "(nat \<Rightarrow> string option) \<Rightarrow> nat \<Rightarrow> database
    \<Rightarrow> (string + ExecutionSession option) \<times> database" where
  "getSession fails sid d =
     (case dbAll fails d of
        (Some e, d1) \<Rightarrow> (Inl e, d1)
      | (None, d1) \<Rightarrow> (Inr (find (\<lambda>x. session_id x = sid) (execution_sessions d1)), d1))"

definition getSessionRecordsAsPolicyRecords :: "(nat \<Rightarrow> string option) \<Rightarrow> nat \<Rightarrow> database
    \<Rightarrow> (string + PolicyRecord list) \<times> database" where
  "getSessionRecordsAsPolicyRecords fails sid d =
     (case dbAll fails d of
        (Some e, d1) \<Rightarrow> (Inl e, d1)
      | (None, d1) \<Rightarrow>
          (Inr (map recordData
                  (sort_key recordIndex
                     (filter (\<lambda>row. row_sessionId row = sid) (processed_records d1)))), d1))"

section \<open>The environment and the state of the server process\<close>

text \<open>
  What the program cannot decide is given by the environment: the outcome of the \<open>n\<close>-th
  call of \<open>cancelarApolice\<close> (it resolves with a result, or rejects with an error whose
  message is given), the outcome of launching the browser and logging in, which SQLite
  statements are rejected, the clock and the random numbers. The clock and the login are
  read at a logical time, the number of events observed so far.
\<close>

datatype attempt = Resolved AutomationResult | Rejected string

datatype init_outcome = Init_ok | Launch_failed string | Login_false | Login_threw string

record env =
  cancelarApolice :: "nat \<Rightarrow> attempt"
  establish :: "nat \<Rightarrow> init_outcome"
  db_fails :: "nat \<Rightarrow> string option"
  clock :: "nat \<Rightarrow> nat"
  toISOString :: "nat \<Rightarrow> string"
  toLocaleTimeString :: "nat \<Rightarrow> string"
  math_random :: "nat \<Rightarrow> string"

text \<open>
  An object of the class \<open>AutomacaoService\<close>. \<open>browser\<close> and
  \<open>page\<close> say whether the handle is non-null, \<open>databaseService\<close> whether a
  DatabaseService was given to the constructor; the StatusService and the database are the
  singletons of the server and live in the state.
\<close>

record AutomacaoService =
  databaseService :: bool
  browser :: bool
  page :: bool
  config :: AutomationConfig
  isRunning :: bool
  sessionId :: "nat option"
  currentFileName :: string

definition new_AutomacaoService :: "AutomationConfig \<Rightarrow> bool \<Rightarrow> AutomacaoService" where
  "new_AutomacaoService cfg with_db =
     \<lparr>databaseService = with_db, browser = False, page = False, config = cfg,
      isRunning = False, sessionId = None, currentFileName = []\<rparr>"

text \<open>The control requests that can arrive while a run is suspended in an \<open>await\<close>.\<close>

datatype command = Pausar | Retomar | Parar

datatype db_call =
    CreateSession string "PolicyRecord list"
  | SaveRecords nat "PolicyRecord list"
  | UpdateSessionProgress nat nat nat nat "session_state option"
  | FinishSession nat session_state

text \<open>
  What an observer of the process sees, in order: an event emitted by the StatusService, a
  DatabaseService call that resolved or rejected, a call of the external actor for a policy.
\<close>

datatype obs =
    Published ss_event
  | Persisted db_call
  | Persist_failed db_call string
  | Actor_called string

text \<open>
  The state: the two singletons, the \<open>AutomacaoService\<close> objects created so far (by
  reference) and the module variables of the server; then the requests still to arrive
  (one batch for each \<open>await\<close> still to come), the events so far and the number of calls of
  the external actor so far.
\<close>

record state =
  statusService :: StatusService
  database :: database
  objects :: "nat \<Rightarrow> AutomacaoService"
  allocated :: nat
  automacaoService :: "nat option"
  currentRecords :: "PolicyRecord list"
  currentFilePath :: "string option"
  automationConfig :: AutomationConfig
  inbox :: "command list list"
  trace :: "obs list"
  actor_calls :: nat

datatype failure = Exception string | Suspended_forever

datatype response =
    Json_ok string
  | Json_error nat string
  | Json_resumed nat nat nat nat

definition now :: "env \<Rightarrow> state \<Rightarrow> string" where
  "now env s = toISOString env (clock env (length (trace s)))"

definition emit :: "(StatusService \<Rightarrow> StatusService \<times> ss_event) \<Rightarrow> state \<Rightarrow> state" where
  "emit m s =
     (case m (statusService s) of
        (ss, ev) \<Rightarrow> s\<lparr>statusService := ss, trace := trace s @ [Published ev]\<rparr>)"

definition write_log :: "env \<Rightarrow> log_type \<Rightarrow> string \<Rightarrow> state \<Rightarrow> state" where
  "write_log env ty msg s =
     (let t = clock env (length (trace s))
      in emit (addLog (string_of_nat t @ ''-'' @ math_random env (length (trace s)),
                       toLocaleTimeString env t) ty msg) s)"

definition update_object :: "nat \<Rightarrow> (AutomacaoService \<Rightarrow> AutomacaoService) \<Rightarrow> state \<Rightarrow> state" where
  "update_object this f s = s\<lparr>objects := (objects s)(this := f (objects s this))\<rparr>"

text \<open>JavaScript truthiness of \<open>this.sessionId\<close> (\<open>number | null\<close>): \<open>null\<close> and \<open>0\<close> are falsy.\<close>

definition truthy :: "nat option \<Rightarrow> bool" where
  "truthy x = (case x of None \<Rightarrow> False | Some n \<Rightarrow> n \<noteq> 0)"

definition sid_of :: "nat option \<Rightarrow> nat" where
  "sid_of x = (case x of None \<Rightarrow> 0 | Some n \<Rightarrow> n)"

definition has_session :: "nat \<Rightarrow> state \<Rightarrow> bool" where
  "has_session this s = (databaseService (objects s this) \<and> truthy (sessionId (objects s this)))"

text \<open>One awaited DatabaseService call: its effect on the database and the event.\<close>

definition perform :: "env \<Rightarrow> db_call \<Rightarrow> state \<Rightarrow> string option \<times> state" where
  "perform env call s =
     (case (case call of
              CreateSession file records \<Rightarrow>
                (case createSession (db_fails env) (now env s) file records (database s) of
                   (Inl e, d) \<Rightarrow> (Some e, d) | (Inr _, d) \<Rightarrow> (None, d))
            | SaveRecords sid records \<Rightarrow>
                saveRecords (db_fails env) (now env s) sid records (database s)
            | UpdateSessionProgress sid processed canceled errors st \<Rightarrow>
                updateSessionProgress (db_fails env) sid processed canceled errors st (database s)
            | FinishSession sid st \<Rightarrow>
                finishSession (db_fails env) (now env s) sid st (database s)) of
        (None, d) \<Rightarrow> (None, s\<lparr>database := d, trace := trace s @ [Persisted call]\<rparr>)
      | (Some e, d) \<Rightarrow> (Some e, s\<lparr>database := d, trace := trace s @ [Persist_failed call e]\<rparr>))"

subsection \<open>pause, resume, stop and close of AutomacaoService\<close>

definition close :: "nat \<Rightarrow> state \<Rightarrow> state" where
  "close this s =
     (let s1 = (if page (objects s this) then update_object this (\<lambda>x. x\<lparr>page := False\<rparr>) s else s)
      in if browser (objects s1 this) then update_object this (\<lambda>x. x\<lparr>browser := False\<rparr>) s1 else s1)"

definition AutomacaoService_pause :: "nat \<Rightarrow> state \<Rightarrow> state" where
  "AutomacaoService_pause this s = emit pause s"

definition AutomacaoService_resume :: "nat \<Rightarrow> state \<Rightarrow> state" where
  "AutomacaoService_resume this s = emit resume s"

text \<open>
  \<open>stop\<close>: both database calls end in \<open>.catch(() => {})\<close>, so a rejection is dropped. While
  paused it writes the counters \<open>0, 0, 0\<close> with status \<open>paused\<close>; otherwise it finishes the
  session as \<open>stopped\<close>.
\<close>

definition AutomacaoService_stop :: "env \<Rightarrow> nat \<Rightarrow> state \<Rightarrow> state" where
  "AutomacaoService_stop env this s =
     (let s1 = update_object this (\<lambda>x. x\<lparr>isRunning := False\<rparr>) s;
          s2 = (if has_session this s1
                then (if statusService_isPaused (statusService s1)
                      then snd (perform env (UpdateSessionProgress (sid_of (sessionId (objects s1 this)))
                                               0 0 0 (Some Paused)) s1)
                      else snd (perform env (FinishSession (sid_of (sessionId (objects s1 this)))
                                               Stopped) s1))
                else s1);
          s3 = emit stop s2
      in close this s3)"

definition isRunningCheck :: "nat \<Rightarrow> state \<Rightarrow> bool" where
  "isRunningCheck this s = isRunning (objects s this)"

subsection \<open>The control routes of the server\<close>

definition api_pausar :: "state \<Rightarrow> response \<times> state" where
  "api_pausar s =
     (case automacaoService s of
        Some this \<Rightarrow> (Json_ok ''Automacao pausada'', AutomacaoService_pause this s)
      | None \<Rightarrow> (Json_error 400 ''Nenhuma automacao em execucao'', s))"

definition api_retomar :: "state \<Rightarrow> response \<times> state" where
  "api_retomar s =
     (case automacaoService s of
        Some this \<Rightarrow> (Json_ok ''Automacao retomada'', AutomacaoService_resume this s)
      | None \<Rightarrow> (Json_error 400 ''Nenhuma automacao pausada'', s))"

definition api_parar :: "env \<Rightarrow> state \<Rightarrow> response \<times> state" where
  "api_parar env s =
     (case automacaoService s of
        Some this \<Rightarrow>
          (Json_ok ''Automacao parada'', (AutomacaoService_stop env this s)\<lparr>automacaoService := None\<rparr>)
      | None \<Rightarrow> (Json_error 400 ''Nenhuma automacao em execucao'', s))"

definition run_command :: "env \<Rightarrow> command \<Rightarrow> state \<Rightarrow> state" where
  "run_command env c s =
     (case c of
        Pausar \<Rightarrow> snd (api_pausar s)
      | Retomar \<Rightarrow> snd (api_retomar s)
      | Parar \<Rightarrow> snd (api_parar env s))"

text \<open>
  An \<open>await\<close> of the run: the requests that arrive while it is suspended are handled, each
  handler running to its end, before the run continues. When no batch is left, no request
  ever arrives again.
\<close>

definition deliver :: "env \<Rightarrow> state \<Rightarrow> state" where
  "deliver env s =
     (case inbox s of
        [] \<Rightarrow> s
      | batch # rest \<Rightarrow> fold (run_command env) batch (s\<lparr>inbox := rest\<rparr>))"

definition persist :: "env \<Rightarrow> db_call \<Rightarrow> state \<Rightarrow> string option \<times> state" where
  "persist env call s = (case perform env call s of (r, s1) \<Rightarrow> (r, deliver env s1))"

section \<open>processarRegistro (src/src/playwright/fluxo.ts)\<close>

text \<open>
  The loop \<open>for (let attempt = 1; attempt <= maxRetries; attempt++)\<close>, its body
  (\<open>try\<close> and \<open>catch\<close>) first: \<open>Inr\<close> is the result returned at once, \<open>Inl\<close> the message
  of the error caught. A result with \<open>success\<close> false is thrown as
  \<open>new Error(result.message)\<close> and caught, as a rejection of the actor is, by the same
  \<open>catch\<close>. The two awaits are the call of the actor and the pause of 2 seconds before the
  next attempt. \<open>lastError\<close> is the message of the last error caught, if any.
  \<open>maxRetries\<close> is \<open>parseInt(MAX_RETRIES)\<close>; a \<open>NaN\<close> behaves in the loop test as a value
  below 1.
\<close>


text \<open>\<open>lastError?.message || "Erro desconhecido"\<close>: an empty message is falsy as well.\<close>

definition message_or_unknown :: "string option \<Rightarrow> string" where
  "message_or_unknown lastError =
     (case lastError of
        Some m \<Rightarrow> if m = [] then ''Erro desconhecido'' else m
      | None \<Rightarrow> ''Erro desconhecido'')"

definition attempt_once :: "env \<Rightarrow> PolicyRecord \<Rightarrow> int \<Rightarrow> int \<Rightarrow> state
    \<Rightarrow> (string + AutomationResult) \<times> state" where
  "attempt_once env record max_retries attempt s =
     (let s1 = write_log env LogInfo
                 (''Processando apolice '' @ apolice record @ '' (tentativa '' @
                  string_of_int attempt @ ''/'' @ string_of_int max_retries @ '')'') s;
          outcome = cancelarApolice env (actor_calls s1);
          s2 = deliver env (s1\<lparr>trace := trace s1 @ [Actor_called (apolice record)],
                                actor_calls := Suc (actor_calls s1)\<rparr>)
      in case (case outcome of
                 Resolved result \<Rightarrow> if success result then Inr result else Inl (message result)
               | Rejected m \<Rightarrow> Inl m) of
           Inr result \<Rightarrow>
             (Inr result, write_log env LogSuccess
                            (''Apolice '' @ apolice record @ '' - Cancelada com sucesso'') s2)
         | Inl m \<Rightarrow>
             (let s3 = write_log env LogError
                         (''Apolice '' @ apolice record @ '' - Erro na tentativa '' @
                          string_of_int attempt @ '': '' @ m) s2
              in (Inl m, if attempt < max_retries then deliver env s3 else s3)))"

function processarRegistro_loop :: "env \<Rightarrow> PolicyRecord \<Rightarrow> int \<Rightarrow> int \<Rightarrow> string option \<Rightarrow> state
    \<Rightarrow> AutomationResult \<times> state" where
  "processarRegistro_loop env record max_retries attempt lastError s =
     (if attempt \<le> max_retries then
        (case attempt_once env record max_retries attempt s of
           (Inr result, s1) \<Rightarrow> (result, s1)
         | (Inl m, s1) \<Rightarrow> processarRegistro_loop env record max_retries (attempt + 1) (Some m) s1)
      else
        (\<lparr>success = False, message = message_or_unknown lastError\<rparr>, s))"
  by pat_completeness auto
termination
  by (relation "measure (\<lambda>(env, record, max_retries, attempt, lastError, s). nat (max_retries + 1 - attempt))")
     auto

declare processarRegistro_loop.simps [simp del]

definition processarRegistro :: "env \<Rightarrow> PolicyRecord \<Rightarrow> int \<Rightarrow> state \<Rightarrow> AutomationResult \<times> state" where
  "processarRegistro env record max_retries s = processarRegistro_loop env record max_retries 1 None s"

section \<open>AutomacaoService.processarRegistros\<close>

text \<open>
  \<open>initialize\<close>: when there is no browser or page, launch the browser and log in. A failed
  launch leaves both handles null; a login that returns false or throws leaves them set.
\<close>

definition AutomacaoService_initialize :: "env \<Rightarrow> nat \<Rightarrow> state \<Rightarrow> string option \<times> state" where
  "AutomacaoService_initialize env this s =
     (if \<not> browser (objects s this) \<or> \<not> page (objects s this) then
        (case establish env (length (trace s)) of
           Launch_failed m \<Rightarrow> (Some m, deliver env s)
         | Login_threw m \<Rightarrow>
             (Some (''Falha no login: '' @ m),
              deliver env (update_object this (\<lambda>x. x\<lparr>browser := True, page := True\<rparr>) s))
         | Login_false \<Rightarrow>
             (Some ''Falha no login'',
              deliver env (update_object this (\<lambda>x. x\<lparr>browser := True, page := True\<rparr>) s))
         | Init_ok \<Rightarrow>
             (None,
              deliver env
                (write_log env LogInfo ''Login realizado com sucesso''
                   (update_object this (\<lambda>x. x\<lparr>browser := True, page := True\<rparr>) s))))
      else (None, s))"

text \<open>
  The loop that counts the records before \<open>startIndex\<close>. Reading \<open>records[i].status\<close>
  beyond the end of the array throws a TypeError.
\<close>

function count_before :: "PolicyRecord list \<Rightarrow> nat \<Rightarrow> nat \<Rightarrow> nat \<Rightarrow> nat \<Rightarrow> string + nat \<times> nat" where
  "count_before records startIndex i n_cancelados n_erros =
     (if i < startIndex then
        (if i < length records then
           count_before records startIndex (Suc i)
             (if status (records ! i) = Cancelado then Suc n_cancelados else n_cancelados)
             (if status (records ! i) = Erro then Suc n_erros else n_erros)
         else Inl ''TypeError: Cannot read properties of undefined (reading status)'')
      else Inr (n_cancelados, n_erros))"
  by pat_completeness auto
termination
  by (relation "measure (\<lambda>(records, startIndex, i, n_cancelados, n_erros). startIndex - i)") auto

declare count_before.simps [simp del]

text \<open>
  The block "save the records, then the session's counters", guarded by
  \<open>this.databaseService && this.sessionId\<close>; it follows each of the two status updates of
  an item.
\<close>

definition checkpoint :: "env \<Rightarrow> nat \<Rightarrow> PolicyRecord list \<Rightarrow> nat \<Rightarrow> nat \<Rightarrow> nat \<Rightarrow> state
    \<Rightarrow> string option \<times> state" where
  "checkpoint env this records processed n_cancelados n_erros s =
     (if has_session this s then
        (case persist env (SaveRecords (sid_of (sessionId (objects s this))) records) s of
           (Some e, s1) \<Rightarrow> (Some e, s1)
         | (None, s1) \<Rightarrow>
             persist env (UpdateSessionProgress (sid_of (sessionId (objects s1 this)))
                            processed n_cancelados n_erros None) s1)
      else (None, s))"

text \<open>
  \<open>while (this.statusService.isPaused() && this.isRunning) await sleep(500)\<close>. The loop
  leaves when a request has cleared one of the flags; when it is still paused and no
  request is left to arrive, it polls forever (\<open>False\<close>).
\<close>

function paused_wait :: "env \<Rightarrow> nat \<Rightarrow> state \<Rightarrow> bool \<times> state" where
  "paused_wait env this s =
     (if statusService_isPaused (statusService s) \<and> isRunning (objects s this) then
        (if inbox s = [] then (False, s) else paused_wait env this (deliver env s))
      else (True, s))"
  by pat_completeness auto
termination
proof (relation "measure (\<lambda>(env, this, s). length (inbox s))", goal_cases)
  case 1
  show ?case by simp
next
  case (2 env this s)
  have keep: "inbox (fold (run_command env) cs t) = inbox t" for cs t
  proof (induction cs arbitrary: t)
    case Nil
    show ?case by simp
  next
    case (Cons c cs)
    have "inbox (run_command env c t) = inbox t"
      by (cases c)
         (auto simp: run_command_def api_pausar_def api_retomar_def api_parar_def
               AutomacaoService_pause_def AutomacaoService_resume_def AutomacaoService_stop_def
               emit_def close_def update_object_def perform_def Let_def
               split: option.splits prod.splits db_call.splits sum.splits)
    with Cons show ?case by simp
  qed
  from 2 show ?case
    by (cases "inbox s") (auto simp: deliver_def keep)
qed

declare paused_wait.simps [simp del]

text \<open>
  The head of an iteration: when paused, record the pause, wait, and record the restart.
  The result \<open>Inr True\<close> is the \<open>break\<close> taken when the run was stopped during the wait.
\<close>

definition pause_gate :: "env \<Rightarrow> nat \<Rightarrow> PolicyRecord list \<Rightarrow> nat \<Rightarrow> nat \<Rightarrow> nat \<Rightarrow> state
    \<Rightarrow> (failure + bool) \<times> state" where
  "pause_gate env this records i n_cancelados n_erros s =
     (if statusService_isPaused (statusService s) then
        (case (if has_session this s then
                 (case persist env (UpdateSessionProgress (sid_of (sessionId (objects s this)))
                                      i n_cancelados n_erros (Some Paused)) s of
                    (Some e, s1) \<Rightarrow> (Some e, s1)
                  | (None, s1) \<Rightarrow>
                      persist env (SaveRecords (sid_of (sessionId (objects s1 this))) records) s1)
               else (None, s)) of
           (Some e, s2) \<Rightarrow> (Inl (Exception e), s2)
         | (None, s2) \<Rightarrow>
             (case paused_wait env this s2 of
                (False, s3) \<Rightarrow> (Inl Suspended_forever, s3)
              | (True, s3) \<Rightarrow>
                  if \<not> isRunning (objects s3 this) then (Inr True, s3)
                  else if has_session this s3 then
                    (case persist env (UpdateSessionProgress (sid_of (sessionId (objects s3 this)))
                                         i n_cancelados n_erros (Some Running)) s3 of
                       (Some e, s4) \<Rightarrow> (Inl (Exception e), s4)
                     | (None, s4) \<Rightarrow> (Inr False, s4))
                  else (Inr False, s3)))
      else (Inr False, s))"

text \<open>
  \<open>this.statusService.updateProgress(n, cancelados, erros)\<close> followed by the checkpoint
  block: the snapshot is emitted first, the database is written after it. The loop does
  this twice for an item: with \<open>n = i\<close> once the item is marked \<open>processando\<close>, and with
  \<open>n = i + 1\<close> once its result is recorded.
\<close>

definition report_progress :: "env \<Rightarrow> nat \<Rightarrow> PolicyRecord list \<Rightarrow> nat \<Rightarrow> nat \<Rightarrow> nat \<Rightarrow> state
    \<Rightarrow> string option \<times> state" where
  "report_progress env this records n n_cancelados n_erros s =
     checkpoint env this records n n_cancelados n_erros
       (emit (updateProgress n n_cancelados n_erros) s)"

text \<open>
  "Atualizar status do registro": the result of \<open>processarRegistro\<close> is written into the
  record and one of the two counters is incremented.
\<close>

definition record_result :: "AutomationResult \<Rightarrow> PolicyRecord \<Rightarrow> nat \<Rightarrow> nat
    \<Rightarrow> PolicyRecord \<times> nat \<times> nat" where
  "record_result result r n_cancelados n_erros =
     (if success result
      then (r\<lparr>status := Cancelado, observacao := message result\<rparr>, Suc n_cancelados, n_erros)
      else (r\<lparr>status := Erro, observacao := message result\<rparr>, n_cancelados, Suc n_erros))"

text \<open>
  The body of an iteration after the pause and stop tests, for \<open>i < records.length\<close>. It
  returns the record \<open>records[i]\<close> as it has become and the two counters. When \<open>this.page\<close>
  is null the actor is not called and the record stays \<open>processando\<close>.
\<close>

definition process_item :: "env \<Rightarrow> nat \<Rightarrow> PolicyRecord list \<Rightarrow> nat \<Rightarrow> nat \<Rightarrow> nat \<Rightarrow> state
    \<Rightarrow> (failure + unit) \<times> (PolicyRecord \<times> nat \<times> nat) \<times> state" where
  "process_item env this records i n_cancelados n_erros s =
     (let r1 = (records ! i)\<lparr>status := Processando\<rparr>
      in case report_progress env this (records[i := r1]) i n_cancelados n_erros s of
           (Some e, s1) \<Rightarrow> (Inl (Exception e), (r1, n_cancelados, n_erros), s1)
         | (None, s1) \<Rightarrow>
             (case (if page (objects s1 this) then
                      (case processarRegistro env r1 (maxRetries (config (objects s1 this))) s1 of
                         (result, s2) \<Rightarrow> (record_result result r1 n_cancelados n_erros, s2))
                    else ((r1, n_cancelados, n_erros), s1)) of
                ((r2, c2, e2), s2) \<Rightarrow>
                  (case report_progress env this (records[i := r2]) (i + 1) c2 e2 s2 of
                     (Some e, s3) \<Rightarrow> (Inl (Exception e), (r2, c2, e2), s3)
                   | (None, s3) \<Rightarrow> (Inr (), (r2, c2, e2), s3))))"

text \<open>\<open>for (let i = startIndex; i < records.length; i++)\<close>.\<close>

function process_loop :: "env \<Rightarrow> nat \<Rightarrow> PolicyRecord list \<Rightarrow> nat \<Rightarrow> nat \<Rightarrow> nat \<Rightarrow> state
    \<Rightarrow> (failure + unit) \<times> (PolicyRecord list \<times> nat \<times> nat) \<times> state" where
  "process_loop env this records i n_cancelados n_erros s =
     (if i < length records then
        (case pause_gate env this records i n_cancelados n_erros s of
           (Inl f, s1) \<Rightarrow> (Inl f, (records, n_cancelados, n_erros), s1)
         | (Inr stopped, s1) \<Rightarrow>
             if stopped \<or> \<not> isRunning (objects s1 this)
             then (Inr (), (records, n_cancelados, n_erros), s1)
             else
               (case process_item env this records i n_cancelados n_erros s1 of
                  (Inl f, (r, c, e), s2) \<Rightarrow> (Inl f, (records[i := r], c, e), s2)
                | (Inr u, (r, c, e), s2) \<Rightarrow> process_loop env this (records[i := r]) (Suc i) c e s2))
      else (Inr (), (records, n_cancelados, n_erros), s))"
  by pat_completeness auto
termination
  by (relation "measure (\<lambda>(env, this, records, i, n_cancelados, n_erros, s). length records - i)") auto

declare process_loop.simps [simp del]

text \<open>Creating the session, or marking an existing one as running.\<close>

definition open_session :: "env \<Rightarrow> nat \<Rightarrow> PolicyRecord list \<Rightarrow> string option \<Rightarrow> nat \<Rightarrow> state
    \<Rightarrow> string option \<times> state" where
  "open_session env this records file startIndex s =
     (if databaseService (objects s this) then
        (if \<not> truthy (sessionId (objects s this)) then
           (let fallback = ''execucao_'' @ string_of_nat (clock env (length (trace s))) @ ''.xlsx'';
                name = (case file of Some f \<Rightarrow> if f = [] then fallback else f | None \<Rightarrow> fallback);
                s1 = update_object this (\<lambda>x. x\<lparr>currentFileName := name\<rparr>) s
            in case createSession (db_fails env) (now env s1) name records (database s1) of
                 (Inl e, d) \<Rightarrow>
                   (Some e, deliver env (s1\<lparr>database := d,
                      trace := trace s1 @ [Persist_failed (CreateSession name records) e]\<rparr>))
               | (Inr new_id, d) \<Rightarrow>
                   (let s2 = deliver env (s1\<lparr>database := d,
                               trace := trace s1 @ [Persisted (CreateSession name records)]\<rparr>);
                        s3 = update_object this (\<lambda>x. x\<lparr>sessionId := Some new_id\<rparr>) s2
                    in (None, write_log env LogInfo
                                (''Sessao criada no banco de dados (ID: '' @ string_of_nat new_id @ '')'')
                                s3)))
         else persist env (UpdateSessionProgress (sid_of (sessionId (objects s this)))
                             startIndex 0 0 (Some Running)) s)
      else (None, s))"

text \<open>The block after the loop: the session is finished as \<open>completed\<close>, whatever ended the loop.\<close>

definition close_session :: "env \<Rightarrow> nat \<Rightarrow> PolicyRecord list \<Rightarrow> state \<Rightarrow> string option \<times> state" where
  "close_session env this records s =
     (if has_session this s then
        (case persist env (FinishSession (sid_of (sessionId (objects s this))) Completed) s of
           (Some e, s1) \<Rightarrow> (Some e, s1)
         | (None, s1) \<Rightarrow>
             (case persist env (SaveRecords (sid_of (sessionId (objects s1 this))) records) s1 of
                (Some e, s2) \<Rightarrow> (Some e, s2)
              | (None, s2) \<Rightarrow>
                  (None, write_log env LogInfo
                           (''Sessao finalizada no banco de dados (ID: '' @
                            string_of_nat (sid_of (sessionId (objects s2 this))) @ '')'') s2)))
      else (None, s))"

text \<open>The \<open>try\<close> block of \<open>processarRegistros\<close>.\<close>

definition run_body :: "env \<Rightarrow> nat \<Rightarrow> PolicyRecord list \<Rightarrow> string option \<Rightarrow> nat \<Rightarrow> state
    \<Rightarrow> (failure + unit) \<times> PolicyRecord list \<times> state" where
  "run_body env this records file startIndex s =
     (case open_session env this records file startIndex s of
        (Some e, s1) \<Rightarrow> (Inl (Exception e), records, s1)
      | (None, s1) \<Rightarrow>
          (case AutomacaoService_initialize env this s1 of
             (Some e, s2) \<Rightarrow> (Inl (Exception e), records, s2)
           | (None, s2) \<Rightarrow>
               (case count_before records startIndex 0 0 0 of
                  Inl e \<Rightarrow> (Inl (Exception e), records, s2)
                | Inr (n_cancelados, n_erros) \<Rightarrow>
                    (case process_loop env this records startIndex n_cancelados n_erros s2 of
                       (Inl f, (records1, c, e), s3) \<Rightarrow> (Inl f, records1, s3)
                     | (Inr u, (records1, c, e), s3) \<Rightarrow>
                         (case close_session env this records1 s3 of
                            (Some e, s4) \<Rightarrow> (Inl (Exception e), records1, s4)
                          | (None, s4) \<Rightarrow>
                              (Inr (), records1, write_log env LogInfo ''Automacao concluida'' s4))))))"

definition finally_block :: "nat \<Rightarrow> state \<Rightarrow> state" where
  "finally_block this s = emit stop (update_object this (\<lambda>x. x\<lparr>isRunning := False\<rparr>) s)"

text \<open>
  \<open>processarRegistros(records, fileName, startIndex)\<close> on the object \<open>this\<close>. It returns how
  the promise ends, the array \<open>records\<close> as the run left it, and the state. A run that is
  suspended forever executes neither \<open>catch\<close> nor \<open>finally\<close>.
\<close>

definition processarRegistros :: "env \<Rightarrow> nat \<Rightarrow> PolicyRecord list \<Rightarrow> string option \<Rightarrow> nat \<Rightarrow> state
    \<Rightarrow> (failure + unit) \<times> PolicyRecord list \<times> state" where
  "processarRegistros env this records file startIndex s =
     (if isRunning (objects s this)
      then (Inl (Exception ''Automacao ja esta em execucao''), records, s)
      else
        (let s1 = update_object this (\<lambda>x. x\<lparr>isRunning := True\<rparr>) s;
             s2 = emit (initialize records) s1;
             s3 = emit start s2;
             s4 = emit (updateProgress startIndex 0 0) s3
         in case run_body env this records file startIndex s4 of
              (Inl Suspended_forever, records1, s5) \<Rightarrow> (Inl Suspended_forever, records1, s5)
            | (Inl (Exception msg), records1, s5) \<Rightarrow>
                (let s6 = (if has_session this s5
                           then snd (persist env (FinishSession (sid_of (sessionId (objects s5 this)))
                                                    Failed) s5)
                           else s5);
                     s7 = write_log env LogError (''Erro na automacao: '' @ msg) s6
                 in (Inl (Exception msg), records1, finally_block this s7))
            | (Inr u, records1, s5) \<Rightarrow> (Inr (), records1, finally_block this s5)))"

section \<open>The routes that start a run\<close>

fun findIndex :: "('a \<Rightarrow> bool) \<Rightarrow> 'a list \<Rightarrow> int" where
  "findIndex P [] = - 1"
| "findIndex P (x # xs) =
     (if P x then 0 else (let k = findIndex P xs in if k < 0 then - 1 else k + 1))"

definition unfinished :: "PolicyRecord \<Rightarrow> bool" where
  "unfinished r = (status r = Pendente \<or> status r = Erro)"

text \<open>\<open>path.basename\<close> for a path without a trailing separator.\<close>

definition basename :: "string \<Rightarrow> string" where
  "basename p = rev (takeWhile (\<lambda>c. c \<noteq> CHR ''/'') (rev p))"

text \<open>
  \<open>new AutomacaoService(statusService, automationConfig, databaseService)\<close>, assigned to
  the module variable \<open>automacaoService\<close>.
\<close>

definition create_service :: "state \<Rightarrow> nat \<times> state" where
  "create_service s =
     (allocated s,
      s\<lparr>objects := (objects s)(allocated s := new_AutomacaoService (automationConfig s) True),
        allocated := Suc (allocated s),
        automacaoService := Some (allocated s)\<rparr>)"

text \<open>
  The run is started in the background with \<open>.catch\<close> attached; the routes below return
  the response together with the state in which the run has ended or is suspended forever.
\<close>

definition start_in_background :: "env \<Rightarrow> nat \<Rightarrow> PolicyRecord list \<Rightarrow> string \<Rightarrow> nat \<Rightarrow> state \<Rightarrow> state" where
  "start_in_background env this records file startIndex s =
     (case processarRegistros env this records (Some file) startIndex s of
        (Inl (Exception msg), records1, s1) \<Rightarrow> write_log env LogError (''Erro fatal: '' @ msg) s1
      | (Inl Suspended_forever, records1, s1) \<Rightarrow> s1
      | (Inr u, records1, s1) \<Rightarrow> s1)"

definition service_running :: "state \<Rightarrow> bool" where
  "service_running s = (case automacaoService s of Some this \<Rightarrow> isRunningCheck this s | None \<Rightarrow> False)"

definition api_executar :: "env \<Rightarrow> state \<Rightarrow> response \<times> state" where
  "api_executar env s =
     (if length (currentRecords s) = 0 then (Json_error 400 ''Nenhuma planilha carregada'', s)
      else if service_running s then (Json_error 400 ''Automacao ja esta em execucao'', s)
      else
        (let recordsToProcess = filter unfinished (currentRecords s)
         in if length recordsToProcess = 0
            then (Json_error 400 ''Nenhum registro para processar'', s)
            else
              (case create_service s of
                 (this, s1) \<Rightarrow>
                   (let fallback = ''execucao_'' @ string_of_nat (clock env (length (trace s1)))
                                   @ ''.xlsx'';
                        file = (case currentFilePath s1 of
                                  Some p \<Rightarrow> if p = [] then fallback else basename p
                                | None \<Rightarrow> fallback);
                        startIndex = findIndex unfinished (currentRecords s1)
                    in (Json_ok ''Automacao iniciada'',
                        start_in_background env this recordsToProcess file
                          (if startIndex \<ge> 0 then nat startIndex else 0) s1)))))"

text \<open>
  \<open>POST /api/retomar/:id\<close>; \<open>param\<close> is \<open>parseInt(req.params.id)\<close>, \<open>None\<close> for \<open>NaN\<close>. An
  exception of a database query is answered with status 500.
\<close>

definition api_retomar_id :: "env \<Rightarrow> nat option \<Rightarrow> state \<Rightarrow> response \<times> state" where
  "api_retomar_id env param s =
     (case param of
        None \<Rightarrow> (Json_error 400 ''ID de sessao invalido'', s)
      | Some sid \<Rightarrow>
          if service_running s then (Json_error 400 ''Automacao ja esta em execucao'', s)
          else
            (case getSession (db_fails env) sid (database s) of
               (Inl e, d) \<Rightarrow> (Json_error 500 e, s\<lparr>database := d\<rparr>)
             | (Inr None, d) \<Rightarrow> (Json_error 404 ''Sessao nao encontrada'', s\<lparr>database := d\<rparr>)
             | (Inr (Some session), d) \<Rightarrow>
                 if session_status session = Completed
                 then (Json_error 400 ''Sessao ja foi concluida'', s\<lparr>database := d\<rparr>)
                 else
                   (case getSessionRecordsAsPolicyRecords (db_fails env) sid d of
                      (Inl e, d1) \<Rightarrow> (Json_error 500 e, s\<lparr>database := d1\<rparr>)
                    | (Inr records, d1) \<Rightarrow>
                        (let startIndex = findIndex unfinished records
                         in if startIndex = - 1
                            then (Json_error 400 ''Nenhum registro pendente para processar'',
                                  s\<lparr>database := d1\<rparr>)
                            else
                              (let recordsToProcess = filter unfinished records;
                                   s1 = s\<lparr>database := d1, currentRecords := records,
                                          currentFilePath := Some (fileName session)\<rparr>
                               in case create_service s1 of
                                    (this, s2) \<Rightarrow>
                                      (Json_resumed sid (nat startIndex) (length records)
                                         (length recordsToProcess),
                                       start_in_background env this recordsToProcess
                                         (fileName session) (nat startIndex) s2))))))"

text \<open>The policies for which the external actor was called, in order.\<close>

fun actor_calls_of :: "obs list \<Rightarrow> string list" where
  "actor_calls_of [] = []"
| "actor_calls_of (Actor_called a # evs) = a # actor_calls_of evs"
| "actor_calls_of (_ # evs) = actor_calls_of evs"

section \<open>Reading a trace\<close>

text \<open>The counters written by \<open>updateSessionProgress\<close>, in the order of the writes.\<close>

fun progress_writes :: "obs list \<Rightarrow> (nat \<times> nat \<times> nat) list" where
  "progress_writes [] = []"
| "progress_writes (Persisted (UpdateSessionProgress sid p c e st) # evs) = (p, c, e) # progress_writes evs"
| "progress_writes (_ # evs) = progress_writes evs"

text \<open>The session statuses written by the DatabaseService calls that resolved, in order.\<close>

fun status_writes :: "obs list \<Rightarrow> session_state list" where
  "status_writes [] = []"
| "status_writes (Persisted (UpdateSessionProgress sid p c e (Some st)) # evs) = st # status_writes evs"
| "status_writes (Persisted (FinishSession sid st) # evs) = st # status_writes evs"
| "status_writes (_ # evs) = status_writes evs"

text \<open>The status snapshots published, in order.\<close>

fun snapshots :: "obs list \<Rightarrow> ProcessStatus list" where
  "snapshots [] = []"
| "snapshots (Published (Status_event st) # evs) = st # snapshots evs"
| "snapshots (_ # evs) = snapshots evs"

fun first_index :: "('a \<Rightarrow> bool) \<Rightarrow> 'a list \<Rightarrow> nat option" where
  "first_index P [] = None"
| "first_index P (x # xs) =
     (if P x then Some 0 else (case first_index P xs of None \<Rightarrow> None | Some k \<Rightarrow> Some (Suc k)))"

text \<open>
  An event that publishes a snapshot with \<open>currentIndex = n\<close>, and one that writes the
  session's counters with \<open>processed = n\<close> and no change of status: after item \<open>i\<close> the loop
  does both with \<open>n = i + 1\<close>.
\<close>

fun publishes :: "nat \<Rightarrow> obs \<Rightarrow> bool" where
  "publishes n (Published (Status_event st)) = (currentIndex st = n)"
| "publishes n _ = False"

fun persists :: "nat \<Rightarrow> obs \<Rightarrow> bool" where
  "persists n (Persisted (UpdateSessionProgress sid p c e None)) = (p = n)"
| "persists n _ = False"

text \<open>"The checkpoint write for item \<open>i\<close> precedes the status publish for item \<open>i\<close>."\<close>

definition persist_precedes_publish :: "nat \<Rightarrow> obs list \<Rightarrow> bool" where
  "persist_precedes_publish i evs =
     (case (first_index (persists (Suc i)) evs, first_index (publishes (Suc i)) evs) of
        (Some a, Some b) \<Rightarrow> a < b
      | _ \<Rightarrow> False)"

text \<open>
  The order the code keeps: whenever counters with \<open>processed = n\<close> are written, a snapshot
  with \<open>currentIndex = n\<close> has been published before.
\<close>

definition published_before_persisted :: "nat \<Rightarrow> obs list \<Rightarrow> bool" where
  "published_before_persisted n evs =
     (case first_index (persists n) evs of
        None \<Rightarrow> True
      | Some b \<Rightarrow> (case first_index (publishes n) evs of None \<Rightarrow> False | Some a \<Rightarrow> a < b))"

text \<open>The events of a run: those added to the trace between two states.\<close>

definition events_since :: "state \<Rightarrow> state \<Rightarrow> obs list" where
  "events_since s s1 = drop (length (trace s)) (trace s1)"

text \<open>
  The writes of the checkpoint block (\<open>saveRecords\<close>, and \<open>updateSessionProgress\<close> without
  a status), and the event of such a write being rejected.
\<close>

fun checkpoint_call :: "db_call \<Rightarrow> bool" where
  "checkpoint_call (SaveRecords sid records) = True"
| "checkpoint_call (UpdateSessionProgress sid p c e None) = True"
| "checkpoint_call _ = False"

fun checkpoint_failure :: "obs \<Rightarrow> bool" where
  "checkpoint_failure (Persist_failed call m) = checkpoint_call call"
| "checkpoint_failure _ = False"

text \<open>An attempt that did not succeed, and the message of the error it leaves.\<close>

definition attempt_failed :: "attempt \<Rightarrow> bool" where
  "attempt_failed a = (case a of Resolved result \<Rightarrow> \<not> success result | Rejected m \<Rightarrow> True)"

definition failure_message :: "attempt \<Rightarrow> string" where
  "failure_message a = (case a of Resolved result \<Rightarrow> message result | Rejected m \<Rightarrow> m)"

definition result_of :: "attempt \<Rightarrow> AutomationResult" where
  "result_of a =
     (case a of Resolved result \<Rightarrow> result | Rejected m \<Rightarrow> \<lparr>success = False, message = m\<rparr>)"

text \<open>The status of the session \<open>sid\<close> in the database, and the records stored for it.\<close>

definition stored_status :: "nat \<Rightarrow> state \<Rightarrow> session_state option" where
  "stored_status sid s =
     map_option session_status (find (\<lambda>x. session_id x = sid) (execution_sessions (database s)))"

definition stored_records :: "nat \<Rightarrow> state \<Rightarrow> (string \<times> record_status) list" where
  "stored_records sid s =
     map (\<lambda>row. (row_apolice row, row_status row))
         (filter (\<lambda>row. row_sessionId row = sid) (processed_records (database s)))"

section \<open>Notions used in the proofs about traces\<close>

text \<open>The events that the handling of a control request can add.\<close>

fun from_request :: "obs \<Rightarrow> bool" where
  "from_request (Published (Status_event st)) = True"
| "from_request (Persisted (UpdateSessionProgress sid p c e (Some st))) = True"
| "from_request (Persisted (FinishSession sid st)) = True"
| "from_request (Persist_failed (UpdateSessionProgress sid p c e (Some st)) m) = True"
| "from_request (Persist_failed (FinishSession sid st) m) = True"
| "from_request _ = False"

text \<open>
  \<open>covered P evs\<close>: reading \<open>evs\<close> from the left with the indices in \<open>P\<close> already published,
  every write of counters finds its index published.
\<close>

fun covered :: "nat set \<Rightarrow> obs list \<Rightarrow> bool" where
  "covered P [] = True"
| "covered P (Published (Status_event st) # evs) = covered (insert (currentIndex st) P) evs"
| "covered P (Persisted (UpdateSessionProgress sid p c e None) # evs) = (p \<in> P \<and> covered P evs)"
| "covered P (_ # evs) = covered P evs"

text \<open>
  \<open>clean\<close>: no checkpoint write was rejected; \<open>quiet\<close>: moreover the actor was not called.
  \<open>halted_by m\<close>: one checkpoint write was rejected, with message \<open>m\<close>, and the actor was
  not called after it. \<open>verdict\<close> relates the events of a step to the error it throws.
\<close>

definition clean :: "obs list \<Rightarrow> bool" where
  "clean evs = list_all (\<lambda>ev. \<not> checkpoint_failure ev) evs"

definition quiet :: "obs list \<Rightarrow> bool" where
  "quiet evs = (clean evs \<and> actor_calls_of evs = [])"

definition halted_by :: "string \<Rightarrow> obs list \<Rightarrow> bool" where
  "halted_by m evs =
     (\<exists>before call after. evs = before @ Persist_failed call m # after \<and> clean before
        \<and> checkpoint_call call \<and> quiet after)"

definition verdict :: "string option \<Rightarrow> obs list \<Rightarrow> bool" where
  "verdict r evs = (clean evs \<or> (\<exists>m. r = Some m \<and> halted_by m evs))"

text \<open>
  \<open>step P r s s1\<close>: the state \<open>s1\<close> continues the trace of \<open>s\<close>, and the events added fit
  the error \<open>r\<close> thrown and the order of publishing and writing.
\<close>

definition step :: "nat set \<Rightarrow> string option \<Rightarrow> state \<Rightarrow> state \<Rightarrow> bool" where
  "step P r s s1 = (\<exists>evs. trace s1 = trace s @ evs \<and> verdict r evs \<and> covered P evs)"

definition quiet_step :: "state \<Rightarrow> state \<Rightarrow> bool" where
  "quiet_step s s1 = (\<exists>evs. trace s1 = trace s @ evs \<and> quiet evs \<and> covered {} evs)"

definition thrown :: "failure + 'a \<Rightarrow> string option" where
  "thrown res = (case res of Inl (Exception m) \<Rightarrow> Some m | _ \<Rightarrow> None)"

section \<open>Sample inputs\<close>

definition sample_policy :: "string \<Rightarrow> record_status \<Rightarrow> PolicyRecord" where
  "sample_policy a st =
     \<lparr>apolice = a, parcela = [], proposta = [], valor = [], vigencia = [], cnpjCpf = [],
      nome = [], status = st, observacao = []\<rparr>"

definition attempt_ok :: attempt where
  "attempt_ok = Resolved \<lparr>success = True, message = ''Cancelamento realizado com sucesso''\<rparr>"

definition attempt_ko :: "string \<Rightarrow> attempt" where
  "attempt_ko m = Resolved \<lparr>success = False, message = m\<rparr>"

text \<open>
  An environment in which the login succeeds and the clock shows the logical time; the
  actor and the failing SQLite statements are given.
\<close>

definition sample_env :: "(nat \<Rightarrow> attempt) \<Rightarrow> (nat \<Rightarrow> string option) \<Rightarrow> env" where
  "sample_env actor fails =
     \<lparr>cancelarApolice = actor, establish = (\<lambda>t. Init_ok), db_fails = fails, clock = (\<lambda>t. t),
      toISOString = string_of_nat, toLocaleTimeString = string_of_nat,
      math_random = (\<lambda>t. ''0.5'')\<rparr>"

definition sample_config :: AutomationConfig where
  "sample_config = \<lparr>username = ''user'', password = ''secret'', headless = True, maxRetries = 2\<rparr>"

definition empty_database :: database where
  "empty_database = \<lparr>execution_sessions = [], processed_records = [], statements = 0\<rparr>"

text \<open>
  The server after start-up and an upload of \<open>records\<close>, with the database \<open>d\<close> on disk and
  the control requests \<open>requests\<close> still to arrive.
\<close>

definition idle_server :: "database \<Rightarrow> PolicyRecord list \<Rightarrow> command list list \<Rightarrow> state" where
  "idle_server d records requests =
     \<lparr>statusService = fst (initialize records new_StatusService),
      database = d,
      objects = (\<lambda>r. new_AutomacaoService sample_config True),
      allocated = 0,
      automacaoService = None,
      currentRecords = records,
      currentFilePath = Some ''uploads/upload_1.xlsx'',
      automationConfig = sample_config,
      inbox = requests,
      trace = [],
      actor_calls = 0\<rparr>"

definition pending :: "string list \<Rightarrow> PolicyRecord list" where
  "pending names = map (\<lambda>a. sample_policy a Pendente) names"

definition always_ok :: "nat \<Rightarrow> attempt" where
  "always_ok n = attempt_ok"

definition no_db_failure :: "nat \<Rightarrow> string option" where
  "no_db_failure n = None"

text \<open>
  A database holding one paused session of four items: the first cancelled, the second
  failed, the last two pending.
\<close>

definition persisted_session :: database where
  "persisted_session =
     \<lparr>execution_sessions =
        [\<lparr>session_id = 1, fileName = ''upload_1.xlsx'', startDate = ''2024-01-01T10:00:00.000Z'',
          endDate = None, session_status = Paused, totalRecords = 4, processedRecords = 2,
          canceledRecords = 1, errorRecords = 1\<rparr>],
      processed_records =
        map (\<lambda>(i, r). \<lparr>row_id = Suc i, row_sessionId = 1, row_apolice = apolice r,
                        row_nome = nome r, row_cnpjCpf = cnpjCpf r, row_status = status r,
                        row_observacao = observacao r,
                        processedAt = ''2024-01-01T10:05:00.000Z'', recordIndex = i,
                        recordData = r\<rparr>)
            (enumerate 0 [sample_policy ''A'' Cancelado, sample_policy ''B'' Erro,
                          sample_policy ''C'' Pendente, sample_policy ''D'' Pendente]),
      statements = 0\<rparr>"

text \<open>Actors for an item with two attempts: the first attempt fails, the second one varies.\<close>

definition ko_then_ok :: "nat \<Rightarrow> attempt" where
  "ko_then_ok n = (if n = 0 then attempt_ko ''Timeout 15000ms exceeded'' else attempt_ok)"

definition ko_twice :: "nat \<Rightarrow> attempt" where
  "ko_twice n = (if n = 0 then attempt_ko ''Timeout 15000ms exceeded''
                 else Rejected ''Target closed'')"

definition ko_then_empty :: "nat \<Rightarrow> attempt" where
  "ko_then_empty n = (if n = 0 then attempt_ko ''Timeout 15000ms exceeded'' else attempt_ko [])"

text \<open>SQLite rejects the statement number \<open>k\<close> and no other.\<close>

definition disk_full_at :: "nat \<Rightarrow> nat \<Rightarrow> string option" where
  "disk_full_at k n = (if n = k then Some ''SQLITE_FULL: database or disk is full'' else None)"

text \<open>The server at the moment \<open>/api/executar\<close> has created the service object 0.\<close>

definition started_server :: "PolicyRecord list \<Rightarrow> command list list \<Rightarrow> state" where
  "started_server records requests = snd (create_service (idle_server empty_database records requests))"

text \<open>The records \<open>A\<close> and \<open>B\<close> in memory once \<open>A\<close> is cancelled.\<close>

definition cancelled_A_pending_B :: "PolicyRecord list" where
  "cancelled_A_pending_B =
     [(sample_policy ''A'' Pendente)\<lparr>status := Cancelado,
         observacao := ''Cancelamento realizado com sucesso''\<rparr>,
      sample_policy ''B'' Pendente]"

text \<open>
  The run over the pending records \<open>A\<close> and \<open>B\<close> in which SQLite rejects statement 8, the
  first statement of the \<open>saveRecords\<close> that follows item \<open>A\<close>.
\<close>

definition disk_full_run :: "(failure + unit) \<times> PolicyRecord list \<times> state" where
  "disk_full_run =
     processarRegistros (sample_env always_ok (disk_full_at 8)) 0 (pending [''A'', ''B''])
       (Some ''upload_1.xlsx'') 0 (started_server (pending [''A'', ''B'']) [])"

text \<open>The run over the pending records \<open>A\<close> and \<open>B\<close>, each cancelled at the first attempt.\<close>

definition plain_run :: "(failure + unit) \<times> PolicyRecord list \<times> state" where
  "plain_run =
     processarRegistros (sample_env always_ok no_db_failure) 0 (pending [''A'', ''B''])
       (Some ''upload_1.xlsx'') 0 (started_server (pending [''A'', ''B'']) [])"

text \<open>
  A server whose run of two pending items is paused during the first item and then left
  alone: the run waits in the pause loop, so the session stays active.
\<close>

definition active_server :: state where
  "active_server =
     snd (api_executar (sample_env always_ok no_db_failure)
            (idle_server empty_database (pending [''A'', ''B'']) [[], [], [], [], [Pausar]]))"

section \<open>The log buffer of the StatusService\<close>

lemma addLog_logs:
  "logs (fst (addLog stamp ty msg ss)) = take 100 (entry_of (stamp, ty, msg) # logs ss)"
  by (simp add: addLog_def entry_of_def Let_def)

lemma addLogs_logs:
  "length (logs ss) \<le> 100 \<Longrightarrow> logs (addLogs cs ss) = take 100 (rev (map entry_of cs) @ logs ss)"
proof (induction cs arbitrary: ss)
  case Nil
  then show ?case by simp
next
  case (Cons c cs)
  obtain stamp ty msg where c: "c = (stamp, ty, msg)" by (cases c) auto
  let ?ss = "fst (addLog stamp ty msg ss)"
  have len: "length (logs ?ss) \<le> 100" by (simp add: addLog_logs)
  have "logs (addLogs (c # cs) ss) = take 100 (rev (map entry_of cs) @ logs ?ss)"
    using Cons.IH [OF len] by (simp add: c)
  also have "\<dots> = take 100 (rev (map entry_of cs) @ entry_of c # logs ss)"
    by (simp add: addLog_logs c take_Cons' min_def)
  finally show ?case by simp
qed

text \<open>
  C9. After any sequence of \<open>addLog\<close> calls on a StatusService that was just constructed, or
  just reset by \<open>initialize\<close>, the buffer returned by \<open>getLogs\<close> holds at most 100 entries,
  and they are exactly the most recently added ones, newest first.
\<close>

theorem log_buffer_keeps_last_100:
  "getLogs (addLogs cs new_StatusService) = take 100 (rev (map entry_of cs))
   \<and> getLogs (addLogs cs (fst (initialize records ss))) = take 100 (rev (map entry_of cs))
   \<and> length (getLogs (addLogs cs new_StatusService)) \<le> 100
   \<and> length (getLogs (addLogs cs (fst (initialize records ss)))) \<le> 100"
  by (simp add: getLogs_def addLogs_logs new_StatusService_def initialize_def Let_def)

section \<open>The retry loop\<close>

text \<open>
  C10. Called with \<open>maxRetries \<le> 0\<close>, \<open>processarRegistro\<close> returns the failure with the
  fixed message \<open>Erro desconhecido\<close> and leaves the state as it was: the actor is not
  called, nothing is logged.
\<close>

theorem no_attempt_without_retries:
  "max_retries \<le> 0 \<Longrightarrow>
   processarRegistro env record max_retries s
     = (\<lparr>success = False, message = ''Erro desconhecido''\<rparr>, s)"
  by (simp add: processarRegistro_def processarRegistro_loop.simps message_or_unknown_def)

theorem no_attempt_without_retries_witness:
  "(0::int) \<le> 0
   \<and> processarRegistro (sample_env always_ok no_db_failure) (sample_policy ''A'' Pendente) 0
        (idle_server empty_database (pending [''A'']) [])
      = (\<lparr>success = False, message = ''Erro desconhecido''\<rparr>,
         idle_server empty_database (pending [''A'']) [])"
  using no_attempt_without_retries [of 0 "sample_env always_ok no_db_failure"
          "sample_policy ''A'' Pendente" "idle_server empty_database (pending [''A'']) []"]
  by simp

section \<open>Starting while a run is active\<close>

lemma active_server_reference: "automacaoService active_server = Some 0"
  by code_simp

lemma active_server_running: "isRunning (objects active_server 0)"
  by code_simp

lemma active_server_records: "currentRecords active_server \<noteq> []"
  by code_simp



section \<open>Runs on concrete inputs\<close>

text \<open>
  C8. A run over one pending record that is cancelled at the first attempt publishes these
  snapshots (\<open>currentIndex\<close>, \<open>total\<close>, \<open>progress\<close>): the percentage is 100 before the item is
  processed and 200 after it, where \<open>100 * processed / total\<close> would be 0 and 100.
\<close>

theorem progress_exceeds_100:
  "map (\<lambda>st. (currentIndex st, total st, progress st))
       (snapshots (trace (snd (api_executar (sample_env always_ok no_db_failure)
                                  (idle_server empty_database (pending [''A'']) [])))))
   = [(0, 1, 0), (0, 1, 0), (0, 1, 100), (0, 1, 100), (1, 1, 200), (1, 1, 200)]"
  by code_simp

text \<open>
  C1. Resuming the stored session whose items are cancelled, failed, pending, pending:
  the route answers with start index 1, but the actor is called for the third and fourth
  policy only. The failed second item, the first unfinished one, is never attempted; it
  is stored unchanged in the new session the run creates.
\<close>

theorem resume_skips_first_unfinished:
  "(case api_retomar_id (sample_env always_ok no_db_failure) (Some 1)
          (idle_server persisted_session [] []) of
      (r, s) \<Rightarrow> (r, actor_calls_of (trace s), stored_records 2 s))
   = (Json_resumed 1 1 4 3, [''C'', ''D''],
      [(''B'', Erro), (''C'', Cancelado), (''D'', Cancelado)])"
  by code_simp

text \<open>
  C3. Three pending records, each cancelled at the first attempt; the stop request arrives
  while the loop awaits the checkpoint that follows the first item. The second item is
  not attempted and the last two records stay pending, but the status written last, and
  stored, is \<open>completed\<close>: it overwrites the \<open>stopped\<close> written by \<open>stop\<close>.
\<close>

theorem stop_between_items_ends_completed:
  "(let s = snd (api_executar (sample_env always_ok no_db_failure)
                   (idle_server empty_database (pending [''A'', ''B'', ''C''])
                      [[], [], [], [], [], [], [Parar]]))
    in (actor_calls_of (trace s), status_writes (trace s), stored_status 1 s, stored_records 1 s))
   = ([''A''], [Stopped, Completed], Some Completed,
      [(''A'', Cancelado), (''B'', Pendente), (''C'', Pendente)])"
  by code_simp

text \<open>
  C4. The counters (processed, cancelled, failed) written to the session, in order. In the
  first run the pause request arrives during the first of two items and the stop request
  during the pause: the counters fall from \<open>(1, 1, 0)\<close> to \<open>(0, 0, 0)\<close>. In the second run
  the first of three uploaded records is already cancelled: \<open>processed\<close> is 1 while the
  other two counters are 0.
\<close>

theorem counters_reset_by_stop_while_paused:
  "progress_writes (trace (snd (api_executar (sample_env always_ok no_db_failure)
       (idle_server empty_database (pending [''A'', ''B''])
          [[], [], [], [], [Pausar], [], [], [], [], [Parar]]))))
   = [(0, 0, 0), (1, 1, 0), (1, 1, 0), (0, 0, 0)]
  \<and> progress_writes (trace (snd (api_executar (sample_env always_ok no_db_failure)
       (idle_server empty_database
          [sample_policy ''A'' Cancelado, sample_policy ''B'' Pendente,
           sample_policy ''C'' Pendente] []))))
   = [(1, 0, 0), (2, 1, 0)]"
  by code_simp

section \<open>The outcome of the retry loop\<close>

lemma actor_calls_emit [simp]: "actor_calls (emit m s) = actor_calls s"
  by (simp add: emit_def split: prod.splits)

lemma actor_calls_write_log [simp]: "actor_calls (write_log env ty msg s) = actor_calls s"
  by (simp add: write_log_def Let_def)

lemma actor_calls_update_object [simp]: "actor_calls (update_object this f s) = actor_calls s"
  by (simp add: update_object_def)

lemma actor_calls_perform [simp]: "actor_calls (snd (perform env call s)) = actor_calls s"
  by (simp add: perform_def split: prod.splits option.splits)

lemma actor_calls_close [simp]: "actor_calls (close this s) = actor_calls s"
  by (simp add: close_def Let_def)

lemma actor_calls_run_command [simp]: "actor_calls (run_command env c s) = actor_calls s"
  by (cases c)
     (simp_all add: run_command_def api_pausar_def api_retomar_def api_parar_def
        AutomacaoService_pause_def AutomacaoService_resume_def AutomacaoService_stop_def Let_def
        split: option.splits)

lemma actor_calls_fold [simp]: "actor_calls (fold (run_command env) cs s) = actor_calls s"
  by (induction cs arbitrary: s) simp_all

lemma actor_calls_deliver [simp]: "actor_calls (deliver env s) = actor_calls s"
  by (simp add: deliver_def split: list.splits)

lemma attempt_once_failed:
  assumes "attempt_failed (cancelarApolice env (actor_calls s))"
  shows "fst (attempt_once env record mx attempt s)
           = Inl (failure_message (cancelarApolice env (actor_calls s)))
       \<and> actor_calls (snd (attempt_once env record mx attempt s)) = Suc (actor_calls s)"
  using assms
  by (auto simp: attempt_once_def Let_def attempt_failed_def failure_message_def
           split: attempt.splits)

lemma attempt_once_ok:
  assumes "\<not> attempt_failed (cancelarApolice env (actor_calls s))"
  shows "fst (attempt_once env record mx attempt s)
           = Inr (result_of (cancelarApolice env (actor_calls s)))
       \<and> actor_calls (snd (attempt_once env record mx attempt s)) = Suc (actor_calls s)"
  using assms
  by (auto simp: attempt_once_def Let_def attempt_failed_def result_of_def
           split: attempt.splits)

lemma loop_step_failed:
  assumes "attempt \<le> mx" and "attempt_failed (cancelarApolice env (actor_calls s))"
  shows "\<exists>s1. actor_calls s1 = Suc (actor_calls s)
            \<and> processarRegistro_loop env record mx attempt lastError s
              = processarRegistro_loop env record mx (attempt + 1)
                  (Some (failure_message (cancelarApolice env (actor_calls s)))) s1"
proof -
  obtain x s1 where eq: "attempt_once env record mx attempt s = (x, s1)"
    by (cases "attempt_once env record mx attempt s")
  with attempt_once_failed [OF assms(2), of "record" mx attempt]
  have "x = Inl (failure_message (cancelarApolice env (actor_calls s)))"
    and "actor_calls s1 = Suc (actor_calls s)" by simp_all
  with eq assms(1) show ?thesis
    by (subst processarRegistro_loop.simps) auto
qed

lemma loop_step_ok:
  assumes "attempt \<le> mx" and "\<not> attempt_failed (cancelarApolice env (actor_calls s))"
  shows "\<exists>s1. actor_calls s1 = Suc (actor_calls s)
            \<and> processarRegistro_loop env record mx attempt lastError s
              = (result_of (cancelarApolice env (actor_calls s)), s1)"
proof -
  obtain x s1 where eq: "attempt_once env record mx attempt s = (x, s1)"
    by (cases "attempt_once env record mx attempt s")
  with attempt_once_ok [OF assms(2), of "record" mx attempt]
  have "x = Inr (result_of (cancelarApolice env (actor_calls s)))"
    and "actor_calls s1 = Suc (actor_calls s)" by simp_all
  with eq assms(1) show ?thesis
    by (subst processarRegistro_loop.simps) auto
qed

lemma loop_first_success:
  assumes "attempt + int j \<le> mx"
      and "\<forall>a<j. attempt_failed (cancelarApolice env (actor_calls s + a))"
      and "\<not> attempt_failed (cancelarApolice env (actor_calls s + j))"
  shows "\<exists>s1. actor_calls s1 = actor_calls s + j + 1
            \<and> processarRegistro_loop env record mx attempt lastError s
              = (result_of (cancelarApolice env (actor_calls s + j)), s1)"
  using assms
proof (induction j arbitrary: attempt lastError s)
  case 0
  then show ?case using loop_step_ok [of attempt mx env s "record" lastError] by simp
next
  case (Suc j)
  have first: "attempt_failed (cancelarApolice env (actor_calls s))"
    using Suc.prems(2) by (metis add.right_neutral zero_less_Suc)
  from Suc.prems(1) have le: "attempt \<le> mx" by simp
  obtain s1 where s1: "actor_calls s1 = Suc (actor_calls s)"
    and step: "processarRegistro_loop env record mx attempt lastError s
                 = processarRegistro_loop env record mx (attempt + 1)
                     (Some (failure_message (cancelarApolice env (actor_calls s)))) s1"
    using loop_step_failed [OF le first] by blast
  have a: "attempt + 1 + int j \<le> mx" using Suc.prems(1) by simp
  have b: "\<forall>a<j. attempt_failed (cancelarApolice env (actor_calls s1 + a))"
    using Suc.prems(2) s1 by (metis Suc_less_eq add_Suc_shift)
  have c: "\<not> attempt_failed (cancelarApolice env (actor_calls s1 + j))"
    using Suc.prems(3) s1 by simp
  from Suc.IH [OF a b c] step s1 show ?case by simp
qed

lemma loop_all_failed:
  assumes "k = nat (mx + 1 - attempt)"
      and "\<forall>a<k. attempt_failed (cancelarApolice env (actor_calls s + a))"
  shows "\<exists>s1. actor_calls s1 = actor_calls s + k
            \<and> processarRegistro_loop env record mx attempt lastError s
              = (\<lparr>success = False,
                  message = message_or_unknown (if k = 0 then lastError
                                  else Some (failure_message (cancelarApolice env (actor_calls s + (k - 1)))))\<rparr>, s1)"
  using assms
proof (induction k arbitrary: attempt lastError s)
  case 0
  then have "\<not> attempt \<le> mx" by simp
  then show ?case
    by (subst processarRegistro_loop.simps) (simp add: message_or_unknown_def)
next
  case (Suc k)
  from Suc.prems(1) have le: "attempt \<le> mx" by simp
  have first: "attempt_failed (cancelarApolice env (actor_calls s))"
    using Suc.prems(2) by (metis add.right_neutral zero_less_Suc)
  obtain s1 where s1: "actor_calls s1 = Suc (actor_calls s)"
    and step: "processarRegistro_loop env record mx attempt lastError s
                 = processarRegistro_loop env record mx (attempt + 1)
                     (Some (failure_message (cancelarApolice env (actor_calls s)))) s1"
    using loop_step_failed [OF le first] by blast
  have a: "k = nat (mx + 1 - (attempt + 1))" using Suc.prems(1) by simp
  have b: "\<forall>a<k. attempt_failed (cancelarApolice env (actor_calls s1 + a))"
    using Suc.prems(2) s1 by (metis Suc_less_eq add_Suc_shift)
  from Suc.IH [OF a b, of "Some (failure_message (cancelarApolice env (actor_calls s)))"]
  obtain s2 where s2: "actor_calls s2 = actor_calls s1 + k"
    and res: "processarRegistro_loop env record mx (attempt + 1)
                (Some (failure_message (cancelarApolice env (actor_calls s)))) s1
              = (\<lparr>success = False,
                  message = message_or_unknown (if k = 0 then Some (failure_message (cancelarApolice env (actor_calls s)))
                                  else Some (failure_message (cancelarApolice env (actor_calls s1 + (k - 1)))))\<rparr>, s2)"
    by blast
  have "(if k = 0 then Some (failure_message (cancelarApolice env (actor_calls s)))
         else Some (failure_message (cancelarApolice env (actor_calls s1 + (k - 1)))))
        = Some (failure_message (cancelarApolice env (actor_calls s + (Suc k - 1))))"
    using s1 by (cases k) simp_all
  with res step s2 s1 show ?case by simp
qed



lemma ko_then_ok_attempts:
  "1 < (2::nat) \<and> (\<forall>a<1. attempt_failed (ko_then_ok (0 + a))) \<and> \<not> attempt_failed (ko_then_ok (0 + 1))"
  by (simp add: ko_then_ok_def attempt_failed_def attempt_ko_def attempt_ok_def)

lemma ko_twice_attempts: "\<forall>a<2. attempt_failed (ko_twice (0 + a))"
  by (simp add: ko_twice_def attempt_failed_def attempt_ko_def)



section \<open>The events of a run\<close>

subsection \<open>Lists of events\<close>

lemma actor_calls_of_append [simp]:
  "actor_calls_of (a @ b) = actor_calls_of a @ actor_calls_of b"
  by (induction a rule: actor_calls_of.induct) simp_all

lemma clean_simps [simp]:
  "clean []" "clean (ev # evs) = (\<not> checkpoint_failure ev \<and> clean evs)"
  "clean (a @ b) = (clean a \<and> clean b)"
  by (simp_all add: clean_def)

lemma quiet_simps [simp]: "quiet []" "quiet (a @ b) = (quiet a \<and> quiet b)"
  by (auto simp: quiet_def)

lemma quiet_clean: "quiet evs \<Longrightarrow> clean evs"
  by (simp add: quiet_def)

lemma from_request_not_failure: "from_request ev \<Longrightarrow> \<not> checkpoint_failure ev"
  by (induction ev rule: from_request.induct) simp_all

lemma from_request_not_actor: "from_request ev \<Longrightarrow> actor_calls_of (ev # evs) = actor_calls_of evs"
  by (induction ev rule: from_request.induct) simp_all

lemma requests_quiet: "list_all from_request evs \<Longrightarrow> quiet evs"
  by (induction evs) (auto simp: quiet_def from_request_not_failure from_request_not_actor)

lemma covered_mono: "covered P evs \<Longrightarrow> P \<subseteq> Q \<Longrightarrow> covered Q evs"
proof (induction P evs arbitrary: Q rule: covered.induct)
  case (2 P st evs)
  from "2.IH" [of "insert (currentIndex st) Q"] "2.prems" show ?case by auto
qed auto

lemma covered_append: "covered P a \<Longrightarrow> covered P b \<Longrightarrow> covered P (a @ b)"
proof (induction P a rule: covered.induct)
  case (2 P st evs)
  from "2.prems" covered_mono [of P b "insert (currentIndex st) P"] "2.IH" show ?case by auto
qed simp_all

lemma requests_covered: "list_all from_request evs \<Longrightarrow> covered P evs"
proof (induction evs arbitrary: P)
  case Nil
  show ?case by simp
next
  case (Cons ev evs)
  then show ?case by (induction ev rule: from_request.induct) simp_all
qed

lemma verdict_clean: "clean evs \<Longrightarrow> verdict r evs"
  by (simp add: verdict_def)

lemma verdict_None: "verdict None evs = clean evs"
  by (simp add: verdict_def)

lemma halted_prepend: "clean a \<Longrightarrow> halted_by m b \<Longrightarrow> halted_by m (a @ b)"
  unfolding halted_by_def
  by (metis append.assoc clean_simps(3))

lemma halted_append: "halted_by m a \<Longrightarrow> quiet b \<Longrightarrow> halted_by m (a @ b)"
  unfolding halted_by_def
  by (metis append.assoc append_Cons quiet_simps(2))

lemma verdict_prepend: "clean a \<Longrightarrow> verdict r b \<Longrightarrow> verdict r (a @ b)"
  by (auto simp: verdict_def halted_prepend)

lemma verdict_append: "verdict r a \<Longrightarrow> quiet b \<Longrightarrow> verdict r (a @ b)"
  by (auto simp: verdict_def halted_append quiet_clean)

subsection \<open>The trace grows\<close>

lemma trace_emit: "trace (emit m s) = trace s @ [Published (snd (m (statusService s)))]"
  by (simp add: emit_def split: prod.splits)

lemma trace_write_log:
  "\<exists>entry. trace (write_log env ty msg s) = trace s @ [Published (Log_event entry)]"
  by (simp add: write_log_def Let_def trace_emit addLog_def)

lemma trace_update_object [simp]: "trace (update_object this f s) = trace s"
  by (simp add: update_object_def)

lemma trace_close [simp]: "trace (close this s) = trace s"
  by (simp add: close_def Let_def)

lemma trace_perform:
  "perform env call s = (r, s1) \<Longrightarrow>
   trace s1 = trace s @ [case r of None \<Rightarrow> Persisted call | Some m \<Rightarrow> Persist_failed call m]"
  by (auto simp: perform_def split: prod.splits option.splits)

lemma trace_status_emit:
  "m \<in> {pause, resume, stop} \<Longrightarrow> \<exists>st. trace (emit m s) = trace s @ [Published (Status_event st)]"
  by (auto simp: trace_emit pause_def resume_def stop_def Let_def)

lemma trace_stop:
  "\<exists>evs. trace (AutomacaoService_stop env this s) = trace s @ evs \<and> list_all from_request evs"
proof -
  let ?s1 = "update_object this (\<lambda>x. x\<lparr>isRunning := False\<rparr>) s"
  let ?sid = "sid_of (sessionId (objects ?s1 this))"
  define s2 where "s2 = (if has_session this ?s1
                then (if statusService_isPaused (statusService ?s1)
                      then snd (perform env (UpdateSessionProgress ?sid 0 0 0 (Some Paused)) ?s1)
                      else snd (perform env (FinishSession ?sid Stopped) ?s1))
                else ?s1)"
  have "\<exists>evs. trace s2 = trace s @ evs \<and> list_all from_request evs"
  proof (cases "has_session this ?s1")
    case False
    then show ?thesis by (simp add: s2_def)
  next
    case True
    show ?thesis
    proof (cases "statusService_isPaused (statusService ?s1)")
      case True
      obtain r t where p: "perform env (UpdateSessionProgress ?sid 0 0 0 (Some Paused)) ?s1 = (r, t)"
        by (cases "perform env (UpdateSessionProgress ?sid 0 0 0 (Some Paused)) ?s1")
      from trace_perform [OF p] p \<open>has_session this ?s1\<close> True show ?thesis
        by (cases r) (simp_all add: s2_def)
    next
      case False
      obtain r t where p: "perform env (FinishSession ?sid Stopped) ?s1 = (r, t)"
        by (cases "perform env (FinishSession ?sid Stopped) ?s1")
      from trace_perform [OF p] p \<open>has_session this ?s1\<close> False show ?thesis
        by (cases r) (simp_all add: s2_def)
    qed
  qed
  then obtain evs where evs: "trace s2 = trace s @ evs" "list_all from_request evs" by blast
  have "trace (AutomacaoService_stop env this s) = trace (emit stop s2)"
    by (simp add: AutomacaoService_stop_def Let_def s2_def)
  moreover obtain st where "trace (emit stop s2) = trace s2 @ [Published (Status_event st)]"
    using trace_status_emit [of stop s2] by auto
  ultimately have "trace (AutomacaoService_stop env this s) = trace s @ (evs @ [Published (Status_event st)])"
    using evs by simp
  moreover have "list_all from_request (evs @ [Published (Status_event st)])"
    using evs by simp
  ultimately show ?thesis by blast
qed

lemma trace_run_command:
  "\<exists>evs. trace (run_command env c s) = trace s @ evs \<and> list_all from_request evs"
proof (cases c)
  case Pausar
  show ?thesis
  proof (cases "automacaoService s")
    case None
    then show ?thesis by (simp add: Pausar run_command_def api_pausar_def)
  next
    case (Some this)
    obtain st where "trace (emit pause s) = trace s @ [Published (Status_event st)]"
      using trace_status_emit [of pause s] by auto
    then have "trace (run_command env c s) = trace s @ [Published (Status_event st)]"
      by (simp add: Pausar Some run_command_def api_pausar_def AutomacaoService_pause_def)
    moreover have "list_all from_request [Published (Status_event st)]" by simp
    ultimately show ?thesis by blast
  qed
next
  case Retomar
  show ?thesis
  proof (cases "automacaoService s")
    case None
    then show ?thesis by (simp add: Retomar run_command_def api_retomar_def)
  next
    case (Some this)
    obtain st where "trace (emit resume s) = trace s @ [Published (Status_event st)]"
      using trace_status_emit [of resume s] by auto
    then have "trace (run_command env c s) = trace s @ [Published (Status_event st)]"
      by (simp add: Retomar Some run_command_def api_retomar_def AutomacaoService_resume_def)
    moreover have "list_all from_request [Published (Status_event st)]" by simp
    ultimately show ?thesis by blast
  qed
next
  case Parar
  show ?thesis
  proof (cases "automacaoService s")
    case None
    then show ?thesis by (simp add: Parar run_command_def api_parar_def)
  next
    case (Some this)
    from trace_stop [of env this s] show ?thesis
      by (simp add: Parar Some run_command_def api_parar_def)
  qed
qed

lemma trace_fold:
  "\<exists>evs. trace (fold (run_command env) cs s) = trace s @ evs \<and> list_all from_request evs"
proof (induction cs arbitrary: s)
  case Nil
  show ?case by simp
next
  case (Cons c cs)
  obtain a where a: "trace (run_command env c s) = trace s @ a" "list_all from_request a"
    using trace_run_command by blast
  obtain b where b: "trace (fold (run_command env) cs (run_command env c s))
                       = trace (run_command env c s) @ b" "list_all from_request b"
    using Cons.IH by blast
  have "trace (fold (run_command env) (c # cs) s) = trace s @ (a @ b)"
    using a b by simp
  moreover have "list_all from_request (a @ b)" using a b by simp
  ultimately show ?case by blast
qed

lemma trace_deliver:
  "\<exists>evs. trace (deliver env s) = trace s @ evs \<and> list_all from_request evs"
proof (cases "inbox s")
  case Nil
  then show ?thesis by (simp add: deliver_def)
next
  case (Cons batch rest)
  from trace_fold [of env batch "s\<lparr>inbox := rest\<rparr>"] show ?thesis
    by (simp add: deliver_def Cons)
qed

lemma trace_persist:
  assumes "persist env call s = (r, s1)"
  shows "\<exists>evs. trace s1 = trace s @ (case r of None \<Rightarrow> Persisted call | Some m \<Rightarrow> Persist_failed call m) # evs
            \<and> list_all from_request evs"
proof -
  obtain t where p: "perform env call s = (r, t)" and s1: "s1 = deliver env t"
    using assms by (auto simp: persist_def split: prod.splits)
  from trace_deliver [of env t] trace_perform [OF p] s1 show ?thesis by auto
qed


subsection \<open>Steps\<close>

lemma step_refl [simp]: "step P r s s"
  by (simp add: step_def verdict_def)

lemma quiet_step_refl [simp]: "quiet_step s s"
  by (simp add: quiet_step_def)

lemma step_same_trace: "trace s1 = trace s \<Longrightarrow> step P r s s1"
  by (simp add: step_def verdict_def)

lemma quiet_step_same_trace: "trace s1 = trace s \<Longrightarrow> quiet_step s s1"
  by (simp add: quiet_step_def)

lemma step_mono: "step P r s s1 \<Longrightarrow> P \<subseteq> Q \<Longrightarrow> step Q r s s1"
  unfolding step_def using covered_mono by blast

lemma step_trans: "step P None s s1 \<Longrightarrow> step P r s1 s2 \<Longrightarrow> step P r s s2"
  unfolding step_def
proof (elim exE conjE)
  fix a b
  assume "trace s1 = trace s @ a" "verdict None a" "covered P a"
     and "trace s2 = trace s1 @ b" "verdict r b" "covered P b"
  then have "trace s2 = trace s @ (a @ b)" "verdict r (a @ b)" "covered P (a @ b)"
    by (simp_all add: verdict_None verdict_prepend covered_append)
  then show "\<exists>evs. trace s2 = trace s @ evs \<and> verdict r evs \<and> covered P evs" by blast
qed

lemma quiet_step_trans: "quiet_step s s1 \<Longrightarrow> quiet_step s1 s2 \<Longrightarrow> quiet_step s s2"
  unfolding quiet_step_def
proof (elim exE conjE)
  fix a b
  assume "trace s1 = trace s @ a" "quiet a" "covered {} a"
     and "trace s2 = trace s1 @ b" "quiet b" "covered {} b"
  then have "trace s2 = trace s @ (a @ b)" "quiet (a @ b)" "covered {} (a @ b)"
    by (simp_all add: covered_append)
  then show "\<exists>evs. trace s2 = trace s @ evs \<and> quiet evs \<and> covered {} evs" by blast
qed

lemma step_then_quiet: "step P r s s1 \<Longrightarrow> quiet_step s1 s2 \<Longrightarrow> step P r s s2"
  unfolding step_def quiet_step_def
proof (elim exE conjE)
  fix a b
  assume "trace s1 = trace s @ a" "verdict r a" "covered P a"
     and "trace s2 = trace s1 @ b" "quiet b" "covered {} b"
  then have "trace s2 = trace s @ (a @ b)" "verdict r (a @ b)" "covered P (a @ b)"
    using covered_mono [of "{}" b P] by (simp_all add: verdict_append covered_append)
  then show "\<exists>evs. trace s2 = trace s @ evs \<and> verdict r evs \<and> covered P evs" by blast
qed

lemma quiet_step_step: "quiet_step s s1 \<Longrightarrow> step P r s s1"
  unfolding step_def quiet_step_def using covered_mono [of "{}" _ P]
  by (auto simp: verdict_def quiet_def)

lemma step_weaken: "step P None s s1 \<Longrightarrow> step P r s s1"
  by (auto simp: step_def verdict_def)

lemma quiet_deliver: "quiet_step s (deliver env s)"
  using trace_deliver [of env s] by (auto simp: quiet_step_def requests_quiet requests_covered)

lemma quiet_write_log: "quiet_step s (write_log env ty msg s)"
  using trace_write_log [of env ty msg s] by (auto simp: quiet_step_def quiet_def)

lemma quiet_update_object: "quiet_step s (update_object this f s)"
  by (simp add: quiet_step_same_trace)

lemma snd_updateProgress:
  "\<exists>st. snd (updateProgress n c e ss) = Status_event st \<and> currentIndex st = n"
  by (simp add: updateProgress_def Let_def)

lemma quiet_emit_status:
  "\<exists>st. snd (m (statusService s)) = Status_event st \<Longrightarrow> quiet_step s (emit m s)"
  by (auto simp: quiet_step_def trace_emit quiet_def)

lemma step_after_publish:
  assumes "step (insert n P) r (emit (updateProgress n c e) s) s1"
  shows "step P r s s1"
proof -
  obtain st where st: "snd (updateProgress n c e (statusService s)) = Status_event st"
    "currentIndex st = n" using snd_updateProgress by blast
  from assms obtain evs where evs: "trace s1 = trace (emit (updateProgress n c e) s) @ evs"
    "verdict r evs" "covered (insert n P) evs" by (auto simp: step_def)
  have "trace s1 = trace s @ (Published (Status_event st) # evs)"
    using evs(1) st by (simp add: trace_emit)
  moreover have "verdict r (Published (Status_event st) # evs)"
    using verdict_prepend [of "[Published (Status_event st)]" r evs] evs(2) by simp
  moreover have "covered P (Published (Status_event st) # evs)"
    using evs(3) st by simp
  ultimately show ?thesis unfolding step_def by blast
qed

lemma persist_step:
  assumes "persist env call s = (r, s1)"
      and "\<And>sid p c e. call = UpdateSessionProgress sid p c e None \<Longrightarrow> p \<in> P"
  shows "step P r s s1"
proof -
  from trace_persist [OF assms(1)] obtain evs where
    tr: "trace s1 = trace s @ (case r of None \<Rightarrow> Persisted call | Some m \<Rightarrow> Persist_failed call m) # evs"
    and rq: "list_all from_request evs" by blast
  let ?x = "case r of None \<Rightarrow> Persisted call | Some m \<Rightarrow> Persist_failed call m"
  have q: "quiet evs" and cv: "covered P evs"
    using rq by (simp_all add: requests_quiet requests_covered)
  have "verdict r (?x # evs)"
  proof (cases r)
    case None
    then show ?thesis using q by (simp add: verdict_def quiet_clean)
  next
    case (Some m)
    show ?thesis
    proof (cases "checkpoint_call call")
      case True
      have "halted_by m ([] @ Persist_failed call m # evs)"
        unfolding halted_by_def using True q by (intro exI conjI) (rule refl, simp_all)
      then show ?thesis using Some by (simp add: verdict_def)
    next
      case False
      then show ?thesis using Some q by (simp add: verdict_def quiet_clean)
    qed
  qed
  moreover have "covered P (?x # evs)"
  proof (cases r)
    case None
    show ?thesis
    proof (cases call)
      case (UpdateSessionProgress sid p c e st)
      then show ?thesis using cv assms(2) None by (cases st) simp_all
    qed (use cv None in simp_all)
  next
    case (Some m)
    then show ?thesis using cv by simp
  qed
  ultimately show ?thesis using tr unfolding step_def by blast
qed

lemma checkpoint_step:
  assumes "checkpoint env this records n c e s = (r, s1)" and "n \<in> P"
  shows "step P r s s1"
proof (cases "has_session this s")
  case False
  with assms show ?thesis by (simp add: checkpoint_def)
next
  case True
  let ?sid = "sid_of (sessionId (objects s this))"
  obtain r1 t where p1: "persist env (SaveRecords ?sid records) s = (r1, t)"
    by (cases "persist env (SaveRecords ?sid records) s")
  have st1: "step P r1 s t" using persist_step [OF p1] by simp
  show ?thesis
  proof (cases r1)
    case (Some m)
    with assms p1 True have "r = r1" "s1 = t" by (simp_all add: checkpoint_def)
    with st1 show ?thesis by simp
  next
    case None
    let ?call = "UpdateSessionProgress (sid_of (sessionId (objects t this))) n c e None"
    from assms p1 True None have p2: "persist env ?call t = (r, s1)"
      by (simp add: checkpoint_def)
    have "step P r t s1" using persist_step [OF p2] assms(2) by simp
    with st1 None show ?thesis using step_trans by blast
  qed
qed

lemma report_progress_step:
  assumes "report_progress env this records n c e s = (r, s1)"
  shows "step P r s s1"
  using assms checkpoint_step [of env this records n c e _ r s1 "insert n P"]
  by (auto simp: report_progress_def intro: step_after_publish)


subsection \<open>The retry loop and an item\<close>

lemma step_write_log: "step P r s s1 \<Longrightarrow> step P r s (write_log env ty msg s1)"
  using step_then_quiet quiet_write_log by blast

lemma step_deliver: "step P r s s1 \<Longrightarrow> step P r s (deliver env s1)"
  using step_then_quiet quiet_deliver by blast

lemma step_update_object: "step P r s s1 \<Longrightarrow> step P r s (update_object this f s1)"
  using step_then_quiet quiet_update_object by blast

lemma step_actor:
  "step P None s s1 \<Longrightarrow> step P None s (s1\<lparr>trace := trace s1 @ [Actor_called a], actor_calls := n\<rparr>)"
  by (rule step_trans [where ?s1.0 = s1]) (simp_all add: step_def verdict_def)

lemma attempt_once_step: "step P None s (snd (attempt_once env rec mx attempt s))"
  unfolding attempt_once_def Let_def
  by (auto split: attempt.splits intro!: step_write_log step_deliver step_actor)

lemma loop_step:
  "k = nat (mx + 1 - attempt) \<Longrightarrow> step P None s (snd (processarRegistro_loop env rec mx attempt lastError s))"
proof (induction k arbitrary: attempt lastError s)
  case 0
  then have "\<not> attempt \<le> mx" by simp
  then show ?case by (subst processarRegistro_loop.simps) simp
next
  case (Suc k)
  then have le: "attempt \<le> mx" and k: "k = nat (mx + 1 - (attempt + 1))" by simp_all
  obtain x s1 where eq: "attempt_once env rec mx attempt s = (x, s1)"
    by (cases "attempt_once env rec mx attempt s")
  have st: "step P None s s1" using attempt_once_step [of P s env rec mx attempt] eq by simp
  show ?case
  proof (cases x)
    case (Inr result)
    with eq le st show ?thesis by (subst processarRegistro_loop.simps) simp
  next
    case (Inl m)
    from Suc.IH [OF k, of s1 "Some m"] st
    have "step P None s (snd (processarRegistro_loop env rec mx (attempt + 1) (Some m) s1))"
      using step_trans by blast
    with eq le Inl show ?thesis by (subst processarRegistro_loop.simps) simp
  qed
qed

lemma processarRegistro_step: "step P None s (snd (processarRegistro env rec mx s))"
  by (simp add: processarRegistro_def loop_step)

lemma thrown_simps [simp]:
  "thrown (Inl (Exception m)) = Some m" "thrown (Inl Suspended_forever) = None"
  "thrown (Inr x) = None"
  by (simp_all add: thrown_def)

lemma process_item_step:
  assumes "process_item env this records i c e s = (res, x, s1)"
  shows "step P (thrown res) s s1"
proof -
  let ?r1 = "(records ! i)\<lparr>status := Processando\<rparr>"
  obtain q t where rp: "report_progress env this (records[i := ?r1]) i c e s = (q, t)"
    by (cases "report_progress env this (records[i := ?r1]) i c e s")
  have st1: "step P q s t" using report_progress_step [OF rp] .
  show ?thesis
  proof (cases q)
    case (Some m)
    with assms rp have "res = Inl (Exception m)" "s1 = t"
      by (simp_all add: process_item_def Let_def)
    with st1 Some show ?thesis by simp
  next
    case None
    define mid where "mid = (if page (objects t this) then
                      (case processarRegistro env ?r1 (maxRetries (config (objects t this))) t of
                         (result, s2) \<Rightarrow> (record_result result ?r1 c e, s2))
                    else ((?r1, c, e), t))"
    obtain r2 c2 e2 t2 where mid: "mid = ((r2, c2, e2), t2)" by (metis prod_cases3 surj_pair)
    have st2: "step P None t t2"
    proof (cases "page (objects t this)")
      case True
      with mid have "t2 = snd (processarRegistro env ?r1 (maxRetries (config (objects t this))) t)"
        by (auto simp: mid_def split: prod.splits)
      then show ?thesis by (simp add: processarRegistro_step)
    next
      case False
      with mid show ?thesis by (simp add: mid_def)
    qed
    obtain q3 t3 where rp3: "report_progress env this (records[i := r2]) (i + 1) c2 e2 t2 = (q3, t3)"
      by (cases "report_progress env this (records[i := r2]) (i + 1) c2 e2 t2")
    have st3: "step P q3 t2 t3" using report_progress_step [OF rp3] .
    from assms rp None mid rp3 have "s1 = t3" "thrown res = q3"
      by (auto simp: process_item_def Let_def mid_def split: option.splits)
    with st1 st2 st3 None show ?thesis using step_trans by blast
  qed
qed


subsection \<open>The loop over the records\<close>

lemma paused_wait_quiet: "quiet_step s (snd (paused_wait env this s))"
proof (induction env this s rule: paused_wait.induct)
  case (1 env this s)
  show ?case
  proof (cases "statusService_isPaused (statusService s) \<and> isRunning (objects s this) \<and> inbox s \<noteq> []")
    case True
    with 1 have "quiet_step (deliver env s) (snd (paused_wait env this (deliver env s)))" by simp
    with quiet_deliver [of s env] have "quiet_step s (snd (paused_wait env this (deliver env s)))"
      using quiet_step_trans by blast
    with True show ?thesis by (subst paused_wait.simps) simp
  next
    case False
    then show ?thesis by (subst paused_wait.simps) auto
  qed
qed

lemma pause_gate_step:
  assumes "pause_gate env this records i c e s = (res, s1)"
  shows "step P (thrown res) s s1"
proof (cases "statusService_isPaused (statusService s)")
  case False
  with assms show ?thesis by (auto simp: pause_gate_def)
next
  case True
  define first where "first = (if has_session this s then
                 (case persist env (UpdateSessionProgress (sid_of (sessionId (objects s this)))
                                      i c e (Some Paused)) s of
                    (Some e, s1) \<Rightarrow> (Some e, s1)
                  | (None, s1) \<Rightarrow>
                      persist env (SaveRecords (sid_of (sessionId (objects s1 this))) records) s1)
               else (None, s))"
  obtain q t where first: "first = (q, t)" by (cases first)
  have st1: "step P q s t"
  proof (cases "has_session this s")
    case False
    with first show ?thesis by (simp add: first_def)
  next
    case True
    obtain q1 t1 where p1: "persist env (UpdateSessionProgress (sid_of (sessionId (objects s this)))
                                      i c e (Some Paused)) s = (q1, t1)"
      by (metis surj_pair)
    have a: "step P q1 s t1" using persist_step [OF p1] by simp
    show ?thesis
    proof (cases q1)
      case (Some m)
      with first p1 True a show ?thesis by (simp add: first_def)
    next
      case None
      with first p1 True
      have p2: "persist env (SaveRecords (sid_of (sessionId (objects t1 this))) records) t1 = (q, t)"
        by (simp add: first_def)
      have "step P q t1 t" using persist_step [OF p2] by simp
      with a None show ?thesis using step_trans by blast
    qed
  qed
  show ?thesis
  proof (cases q)
    case (Some m)
    with assms True first have "res = Inl (Exception m)" "s1 = t"
      by (simp_all add: pause_gate_def first_def [symmetric])
    with st1 Some show ?thesis by simp
  next
    case None
    obtain b t3 where pw: "paused_wait env this t = (b, t3)" by (metis surj_pair)
    have st2: "step P None t t3"
      using paused_wait_quiet [of t env this] pw quiet_step_step by fastforce
    have st12: "step P None s t3" using st1 None st2 step_trans by blast
    show ?thesis
    proof (cases "b \<and> isRunning (objects t3 this) \<and> has_session this t3")
      case False
      with assms True first None pw have "s1 = t3" "thrown res = None"
        by (auto simp: pause_gate_def first_def [symmetric] split: if_splits bool.splits)
      with st12 show ?thesis by simp
    next
      case yes: True
      obtain q4 t4 where p4: "persist env (UpdateSessionProgress (sid_of (sessionId (objects t3 this)))
                                         i c e (Some Running)) t3 = (q4, t4)"
        by (metis surj_pair)
      have st4: "step P q4 t3 t4" using persist_step [OF p4] by simp
      from assms True first None pw yes p4 have "s1 = t4" "thrown res = q4"
        by (auto simp: pause_gate_def first_def [symmetric] split: option.splits)
      with st12 st4 show ?thesis using step_trans by blast
    qed
  qed
qed

lemma process_loop_step:
  "process_loop env this records i c e s = (res, x, s1) \<Longrightarrow> step P (thrown res) s s1"
proof (induction env this records i c e s arbitrary: res x s1 rule: process_loop.induct)
  case (1 env this records i c e s)
  show ?case
  proof (cases "i < length records")
    case False
    with "1.prems" show ?thesis by (subst (asm) process_loop.simps) auto
  next
    case True
    obtain g t where pg: "pause_gate env this records i c e s = (g, t)" by (metis surj_pair)
    have st1: "step P (thrown g) s t" using pause_gate_step [OF pg] .
    show ?thesis
    proof (cases g)
      case (Inl f)
      with "1.prems" True pg have "res = Inl f" "s1 = t"
        by (subst (asm) process_loop.simps, simp)+
      with st1 Inl show ?thesis by (cases f) simp_all
    next
      case (Inr stopped)
      then have st1': "step P None s t" using st1 by simp
      show ?thesis
      proof (cases "stopped \<or> \<not> isRunning (objects t this)")
        case True
        with "1.prems" \<open>i < length records\<close> pg Inr have "res = Inr ()" "s1 = t"
          by (subst (asm) process_loop.simps, simp)+
        with st1' show ?thesis by simp
      next
        case False
        obtain pres r c2 e2 t2 where pi: "process_item env this records i c e t = (pres, (r, c2, e2), t2)"
          by (metis prod_cases3 surj_pair)
        have st2: "step P (thrown pres) t t2" using process_item_step [OF pi] .
        show ?thesis
        proof (cases pres)
          case (Inl f)
          with "1.prems" \<open>i < length records\<close> pg Inr False pi have "res = pres" "s1 = t2"
            by (subst (asm) process_loop.simps, simp)+
          with st1' st2 show ?thesis using step_trans by blast
        next
          case inr: (Inr u)
          with "1.prems" \<open>i < length records\<close> pg Inr False pi
          have rec: "process_loop env this (records[i := r]) (Suc i) c2 e2 t2 = (res, x, s1)"
            by (subst (asm) process_loop.simps) simp
          have "step P (thrown res) t2 s1"
            using "1.IH" [OF \<open>i < length records\<close> pg [symmetric] Inr False pi [symmetric] inr
                            refl refl refl rec] .
          with st1' st2 inr show ?thesis using step_trans by (metis thrown_simps(3))
        qed
      qed
    qed
  qed
qed




subsection \<open>The whole run\<close>

lemma step_session_event:
  "step P r s s1 \<Longrightarrow> ev = Persisted (CreateSession n rs) \<or> ev = Persist_failed (CreateSession n rs) m
   \<Longrightarrow> step P r s (s1\<lparr>database := d, trace := trace s1 @ [ev]\<rparr>)"
  by (rule step_then_quiet [where ?s1.0 = s1]) (auto simp: quiet_step_def quiet_def)

lemma open_session_step:
  assumes "open_session env this records file startIndex s = (r, s1)"
  shows "step P r s s1"
proof (cases "databaseService (objects s this)")
  case False
  with assms show ?thesis by (simp add: open_session_def)
next
  case True
  show ?thesis
  proof (cases "truthy (sessionId (objects s this))")
    case True
    with assms \<open>databaseService (objects s this)\<close>
    have "persist env (UpdateSessionProgress (sid_of (sessionId (objects s this)))
                             startIndex 0 0 (Some Running)) s = (r, s1)"
      by (simp add: open_session_def)
    from persist_step [OF this] show ?thesis by simp
  next
    case False
    define name where "name = (case file of
          Some f \<Rightarrow> if f = [] then ''execucao_'' @ string_of_nat (clock env (length (trace s))) @ ''.xlsx'' else f
        | None \<Rightarrow> ''execucao_'' @ string_of_nat (clock env (length (trace s))) @ ''.xlsx'')"
    define t1 where "t1 = update_object this (\<lambda>x. x\<lparr>currentFileName := name\<rparr>) s"
    obtain cr d where cs: "createSession (db_fails env) (now env t1) name records (database t1) = (cr, d)"
      by (metis surj_pair)
    have eq: "open_session env this records file startIndex s =
       (case createSession (db_fails env) (now env t1) name records (database t1) of
                 (Inl e, d) \<Rightarrow>
                   (Some e, deliver env (t1\<lparr>database := d,
                      trace := trace t1 @ [Persist_failed (CreateSession name records) e]\<rparr>))
               | (Inr new_id, d) \<Rightarrow>
                   (None, write_log env LogInfo
                                (''Sessao criada no banco de dados (ID: '' @ string_of_nat new_id @ '')'')
                                (update_object this (\<lambda>x. x\<lparr>sessionId := Some new_id\<rparr>)
                                   (deliver env (t1\<lparr>database := d,
                               trace := trace t1 @ [Persisted (CreateSession name records)]\<rparr>)))))"
      unfolding open_session_def Let_def t1_def name_def using True False by simp
    have st1: "step P None s t1" unfolding t1_def by (intro step_update_object step_refl)
    show ?thesis
    proof (cases cr)
      case (Inl m)
      with assms cs eq
      have "r = Some m" and "s1 = deliver env (t1\<lparr>database := d,
                      trace := trace t1 @ [Persist_failed (CreateSession name records) m]\<rparr>)"
        by simp_all
      then show ?thesis
        using step_deliver [OF step_session_event [OF step_weaken [OF st1],
                 of "Persist_failed (CreateSession name records) m" name records m "Some m" d]]
        by simp
    next
      case (Inr new_id)
      define t2 where "t2 = deliver env (t1\<lparr>database := d,
                               trace := trace t1 @ [Persisted (CreateSession name records)]\<rparr>)"
      have st2: "step P None s t2"
        unfolding t2_def
        using step_deliver [OF step_session_event [OF st1,
                 of "Persisted (CreateSession name records)" name records undefined d]]
        by simp
      from Inr assms cs eq
      have "r = None" and "s1 = write_log env LogInfo
                                (''Sessao criada no banco de dados (ID: '' @ string_of_nat new_id @ '')'')
                                (update_object this (\<lambda>x. x\<lparr>sessionId := Some new_id\<rparr>) t2)"
        by (simp_all add: t2_def)
      then show ?thesis
        using step_write_log [OF step_update_object [OF st2]] by simp
    qed
  qed
qed

lemma initialize_step: "step P r s (snd (AutomacaoService_initialize env this s))"
  by (auto simp: AutomacaoService_initialize_def split: init_outcome.splits
           intro!: step_write_log step_update_object step_deliver)


lemma close_session_step:
  assumes "close_session env this records s = (r, s1)"
  shows "step P r s s1"
proof (cases "has_session this s")
  case False
  with assms show ?thesis by (simp add: close_session_def)
next
  case True
  obtain q1 t1 where p1: "persist env (FinishSession (sid_of (sessionId (objects s this))) Completed) s = (q1, t1)"
    by (metis surj_pair)
  have a: "step P q1 s t1" using persist_step [OF p1] by simp
  show ?thesis
  proof (cases q1)
    case (Some m)
    with assms True p1 a show ?thesis by (simp add: close_session_def)
  next
    case None
    obtain q2 t2 where p2: "persist env (SaveRecords (sid_of (sessionId (objects t1 this))) records) t1 = (q2, t2)"
      by (metis surj_pair)
    have b: "step P q2 t1 t2" using persist_step [OF p2] by simp
    have ab: "step P q2 s t2" using a None b step_trans by blast
    show ?thesis
    proof (cases q2)
      case (Some m)
      with assms True p1 None p2 ab show ?thesis by (simp add: close_session_def)
    next
      case n2: None
      with assms True p1 None p2 ab show ?thesis
        by (auto simp: close_session_def intro!: step_write_log)
    qed
  qed
qed

lemma run_body_step:
  assumes "run_body env this records file startIndex s = (res, records1, s1)"
  shows "step P (thrown res) s s1"
proof -
  obtain q1 t1 where o: "open_session env this records file startIndex s = (q1, t1)"
    by (metis surj_pair)
  have a: "step P q1 s t1" using open_session_step [OF o] .
  show ?thesis
  proof (cases q1)
    case (Some m)
    with assms o a show ?thesis by (auto simp: run_body_def)
  next
    case None
    obtain q2 t2 where i: "AutomacaoService_initialize env this t1 = (q2, t2)" by (metis surj_pair)
    have "step P q2 t1 t2" using initialize_step [of P q2 t1 env this] i by simp
    with a None have b: "step P q2 s t2" using step_trans by blast
    show ?thesis
    proof (cases q2)
      case (Some m)
      with assms o None i b show ?thesis by (auto simp: run_body_def)
    next
      case n2: None
      show ?thesis
      proof (cases "count_before records startIndex 0 0 0")
        case (Inl m)
        with assms o None i n2 b show ?thesis by (auto simp: run_body_def step_weaken)
      next
        case (Inr ce)
        obtain c e where ce: "ce = (c, e)" by (cases ce)
        obtain lres lrec lc le t3 where
          l: "process_loop env this records startIndex c e t2 = (lres, (lrec, lc, le), t3)"
          by (metis prod_cases3 surj_pair)
        have c3: "step P (thrown lres) t2 t3" using process_loop_step [OF l] .
        have b3: "step P (thrown lres) s t3" using b n2 c3 step_trans by blast
        show ?thesis
        proof (cases lres)
          case (Inl f)
          with assms o None i n2 Inr ce l b3 show ?thesis by (auto simp: run_body_def)
        next
          case inr: (Inr u)
          obtain q4 t4 where cs: "close_session env this lrec t3 = (q4, t4)" by (metis surj_pair)
          have d: "step P q4 t3 t4" using close_session_step [OF cs] .
          have d4: "step P q4 s t4" using b3 inr d step_trans by (metis thrown_simps(3))
          from assms o None i n2 Inr ce l inr cs d4 show ?thesis
            by (cases q4) (auto simp: run_body_def intro!: step_write_log)
        qed
      qed
    qed
  qed
qed


lemma quiet_finally: "quiet_step s (finally_block this s)"
proof -
  have "quiet_step (update_object this (\<lambda>x. x\<lparr>isRunning := False\<rparr>) s) (finally_block this s)"
    unfolding finally_block_def by (rule quiet_emit_status) (simp add: stop_def Let_def)
  with quiet_update_object show ?thesis using quiet_step_trans by blast
qed

lemma step_finally: "step P r s s1 \<Longrightarrow> step P r s (finally_block this s1)"
  using step_then_quiet quiet_finally by blast

lemma quiet_prelude:
  "quiet_step s (emit (updateProgress startIndex 0 0)
                   (emit start (emit (initialize records)
                      (update_object this (\<lambda>x. x\<lparr>isRunning := True\<rparr>) s))))"
proof -
  have a: "quiet_step t (emit (updateProgress startIndex 0 0) t)" for t
    by (rule quiet_emit_status) (simp add: updateProgress_def Let_def)
  have b: "quiet_step t (emit start t)" for t
    by (rule quiet_emit_status) (simp add: start_def Let_def)
  have c: "quiet_step t (emit (initialize records) t)" for t
    by (rule quiet_emit_status) (simp add: initialize_def Let_def)
  let ?t1 = "update_object this (\<lambda>x. x\<lparr>isRunning := True\<rparr>) s"
  let ?t2 = "emit (initialize records) ?t1"
  let ?t3 = "emit start ?t2"
  have "quiet_step s ?t1" by (rule quiet_update_object)
  then have "quiet_step s ?t2" by (rule quiet_step_trans) (rule c)
  then have "quiet_step s ?t3" by (rule quiet_step_trans) (rule b)
  then show ?thesis by (rule quiet_step_trans) (rule a)
qed


lemma processarRegistros_shape:
  assumes "\<not> isRunning (objects s this)"
      and "processarRegistros env this records file startIndex s = (res, records1, s1)"
  shows "\<exists>t0 t. run_body env this records file startIndex t0 = (res, records1, t)
            \<and> quiet_step s t0
            \<and> (case res of
                  Inl (Exception m) \<Rightarrow>
                    (\<exists>t6. quiet_step t t6
                        \<and> s1 = finally_block this (write_log env LogError (''Erro na automacao: '' @ m) t6))
                | Inl Suspended_forever \<Rightarrow> s1 = t
                | Inr u \<Rightarrow> s1 = finally_block this t)"
proof -
  define t0 where "t0 = emit (updateProgress startIndex 0 0)
                   (emit start (emit (initialize records)
                      (update_object this (\<lambda>x. x\<lparr>isRunning := True\<rparr>) s)))"
  obtain bres brec t where rb: "run_body env this records file startIndex t0 = (bres, brec, t)"
    by (metis prod_cases3)
  have q0: "quiet_step s t0" unfolding t0_def by (rule quiet_prelude)
  show ?thesis
  proof (cases bres)
    case (Inr u)
    with assms rb have "res = bres" "records1 = brec" "s1 = finally_block this t"
      by (simp_all add: processarRegistros_def Let_def t0_def [symmetric])
    with rb q0 Inr show ?thesis by auto
  next
    case (Inl f)
    show ?thesis
    proof (cases f)
      case Suspended_forever
      with Inl assms rb have "res = bres" "records1 = brec" "s1 = t"
        by (simp_all add: processarRegistros_def Let_def t0_def [symmetric])
      with rb q0 Inl Suspended_forever show ?thesis by auto
    next
      case (Exception m)
      define t6 where "t6 = (if has_session this t
                           then snd (persist env (FinishSession (sid_of (sessionId (objects t this)))
                                                    Failed) t)
                           else t)"
      have q6: "quiet_step t t6"
      proof (cases "has_session this t")
        case False
        then show ?thesis by (simp add: t6_def)
      next
        case True
        obtain q u where p: "persist env (FinishSession (sid_of (sessionId (objects t this))) Failed) t = (q, u)"
          by (metis surj_pair)
        from trace_persist [OF p] obtain evs where
          "trace u = trace t @ (case q of None \<Rightarrow> Persisted (FinishSession (sid_of (sessionId (objects t this))) Failed)
                                | Some m \<Rightarrow> Persist_failed (FinishSession (sid_of (sessionId (objects t this))) Failed) m) # evs"
          "list_all from_request evs" by blast
        then have "quiet_step t u"
          unfolding quiet_step_def
          by (cases q) (auto simp: quiet_def dest: requests_quiet requests_covered)
        with True p show ?thesis by (simp add: t6_def)
      qed
      from Inl Exception assms rb
      have "res = bres" "records1 = brec"
           "s1 = finally_block this (write_log env LogError (''Erro na automacao: '' @ m) t6)"
        by (simp_all add: processarRegistros_def Let_def t0_def [symmetric] t6_def)
      with rb q0 q6 Inl Exception show ?thesis by auto
    qed
  qed
qed

lemma processarRegistros_step:
  assumes "processarRegistros env this records file startIndex s = (res, records1, s1)"
  shows "step P (thrown res) s s1"
proof (cases "isRunning (objects s this)")
  case True
  with assms show ?thesis by (simp add: processarRegistros_def)
next
  case False
  from processarRegistros_shape [OF False assms] obtain t0 t where
    rb: "run_body env this records file startIndex t0 = (res, records1, t)"
    and q0: "quiet_step s t0"
    and fin: "case res of
                  Inl (Exception m) \<Rightarrow>
                    (\<exists>t6. quiet_step t t6
                        \<and> s1 = finally_block this (write_log env LogError (''Erro na automacao: '' @ m) t6))
                | Inl Suspended_forever \<Rightarrow> s1 = t
                | Inr u \<Rightarrow> s1 = finally_block this t"
    by blast
  have a: "step P (thrown res) s t"
    using step_trans [OF quiet_step_step [OF q0] run_body_step [OF rb]] .
  show ?thesis
  proof (cases res)
    case (Inr u)
    with fin a show ?thesis by (simp add: step_finally)
  next
    case (Inl f)
    show ?thesis
    proof (cases f)
      case Suspended_forever
      with Inl fin a show ?thesis by simp
    next
      case (Exception m)
      with Inl fin obtain t6 where "quiet_step t t6"
        "s1 = finally_block this (write_log env LogError (''Erro na automacao: '' @ m) t6)" by auto
      with a show ?thesis
        using step_finally [OF step_write_log [OF step_then_quiet [of P "thrown res" s t t6]]]
        by simp
    qed
  qed
qed


subsection \<open>Publishing before persisting\<close>

lemma covered_first_index:
  "covered P evs \<Longrightarrow>
   (case first_index (persists n) evs of
      None \<Rightarrow> True
    | Some b \<Rightarrow> n \<in> P \<or> (case first_index (publishes n) evs of None \<Rightarrow> False | Some a \<Rightarrow> a < b))"
proof (induction P evs rule: covered.induct)
  case (1 P)
  show ?case by simp
next
  case (2 P st evs)
  then show ?case by (auto split: option.splits)
next
  case (3 P sid p c e evs)
  then show ?case by (auto split: option.splits)
qed (auto split: option.splits)

lemma events_since_append: "trace s1 = trace s @ evs \<Longrightarrow> events_since s s1 = evs"
  by (simp add: events_since_def)



lemma plain_run_counters_written:
  "first_index (persists 1)
     (events_since (started_server (pending [''A'', ''B'']) []) (snd (snd plain_run))) = Some 14"
  by code_simp


subsection \<open>A rejected checkpoint write\<close>

lemma halted_unique:
  assumes "halted_by m evs" and "Persist_failed call m1 \<in> set evs" and "checkpoint_call call"
  shows "m1 = m \<and> actor_calls_of (dropWhile (\<lambda>ev. ev \<noteq> Persist_failed call m1) evs) = []"
proof -
  from assms(1) obtain before c after where
    evs: "evs = before @ Persist_failed c m # after" and b: "clean before"
    and a: "quiet after" and cc: "checkpoint_call c"
    unfolding halted_by_def by blast
  have fail: "checkpoint_failure (Persist_failed call m1)" using assms(3) by simp
  have nb: "Persist_failed call m1 \<notin> set before"
    using b fail by (auto simp: clean_def list_all_iff)
  have na: "Persist_failed call m1 \<notin> set after"
    using a fail by (auto simp: quiet_def clean_def list_all_iff)
  from assms(2) evs nb na have same: "Persist_failed call m1 = Persist_failed c m" by auto
  have "dropWhile (\<lambda>ev. ev \<noteq> Persist_failed call m1) (before @ Persist_failed call m1 # after)
          = Persist_failed call m1 # after"
    using nb by (induction before) auto
  then have "dropWhile (\<lambda>ev. ev \<noteq> Persist_failed call m1) evs = Persist_failed c m # after"
    using same evs by simp
  with same a show ?thesis by (simp add: quiet_def)
qed

lemma logs_finally:
  "getLogs (statusService (finally_block this (write_log env LogError msg t)))
     = take 100 (\<lparr>entry_id = string_of_nat (clock env (length (trace t))) @ ''-'' @ math_random env (length (trace t)),
                   entry_type = LogError, log_message = msg,
                   timestamp = toLocaleTimeString env (clock env (length (trace t)))\<rparr>
                 # logs (statusService t))"
  by (simp add: getLogs_def finally_block_def emit_def stop_def write_log_def addLog_def Let_def
        update_object_def)

lemma not_running_finally: "\<not> isRunning (objects (finally_block this t) this)"
  by (simp add: finally_block_def emit_def stop_def Let_def update_object_def)



lemma disk_full_run_event:
  "Persist_failed (SaveRecords 1 cancelled_A_pending_B) ''SQLITE_FULL: database or disk is full''
     \<in> set (events_since (started_server (pending [''A'', ''B'']) []) (snd (snd disk_full_run)))"
  by code_simp

lemma disk_full_run_eq:
  "processarRegistros (sample_env always_ok (disk_full_at 8)) 0 (pending [''A'', ''B''])
       (Some ''upload_1.xlsx'') 0 (started_server (pending [''A'', ''B'']) [])
   = (fst disk_full_run, fst (snd disk_full_run), snd (snd disk_full_run))"
  by (simp add: disk_full_run_def)




end
